theory Spec2Isabelle
  imports Complex_Main "HOL-Library.Word"
begin

section \<open>RAMSES binary readers: \<open>yt/frontends/ramses/io_utils.pyx\<close>\<close>

text \<open>
  The three procedures of \<open>io_utils.pyx\<close> (\<open>read_amr\<close>, \<open>read_offset\<close>,
  \<open>fill_hydro\<close>) are embedded as HOL functions over explicit state. Every raise of
  the source is a value of \<open>fault\<close>; a read that the source performs with bounds
  checking switched off and that leaves the array is undefined behaviour in the source
  and the fault \<open>IndexFault\<close> (or \<open>BufferOverrun\<close>) here.
\<close>

subsection \<open>Faults and loops\<close>

datatype fault =
    YTIllDefinedAMRData string int int  \<comment> \<open>file name, level read from the data, loop level\<close>
  | AttributeError               \<comment> \<open>an attribute that the object does not have\<close>
  | IOFault                      \<comment> \<open>a read where no record of the asked kind begins\<close>
  | ValueError                   \<comment> \<open>numpy: shapes that do not broadcast, bad dimensions\<close>
  | IndexFault                   \<comment> \<open>unchecked index outside its array\<close>
  | BufferOverrun                \<comment> \<open>in-place read longer than the buffer column\<close>

text \<open>\<open>for x in xs: body\<close>, stopping at the first fault.\<close>

fun for_each :: "('a \<Rightarrow> 's \<Rightarrow> fault + 's) \<Rightarrow> 'a list \<Rightarrow> 's \<Rightarrow> fault + 's" where
  "for_each body [] s = Inr s"
| "for_each body (x # xs) s =
     (case body x s of Inl e \<Rightarrow> Inl e | Inr s' \<Rightarrow> for_each body xs s')"

text \<open>\<open>range(n)\<close> for a 64-bit loop variable: empty when \<open>n \<le> 0\<close>.\<close>

definition range_int :: "int \<Rightarrow> int list" where
  "range_int n = map int [0..<nat n]"

text \<open>Assignment of a wider integer to a C \<open>int\<close> / \<open>INT32_t\<close> variable.\<close>

definition to_int32 :: "int \<Rightarrow> int" where
  "to_int32 x = sint (word_of_int x :: 32 word)"

text \<open>Unchecked reads \<open>a[i]\<close> and \<open>a[i, j]\<close> of a numpy array held as nested lists.\<close>

definition index1 :: "'a list \<Rightarrow> int \<Rightarrow> fault + 'a" where
  "index1 a i = (if 0 \<le> i \<and> i < int (length a) then Inr (a ! nat i) else Inl IndexFault)"

definition index2 :: "'a list list \<Rightarrow> int \<Rightarrow> int \<Rightarrow> fault + 'a" where
  "index2 a i j = (case index1 a i of Inl e \<Rightarrow> Inl e | Inr row \<Rightarrow> index1 row j)"

subsection \<open>The record reader\<close>

text \<open>
  Modelled from the spec: the sequential binary-record reader \<open>FortranFile\<close>
  (\<open>yt.utilities.cython_fortran_utils\<close>) is not among the sources. The spec gives it
  \<open>read_vector\<close>, \<open>read_vector_into\<close>, \<open>read_int\<close>, \<open>skip\<close>, \<open>seek\<close> and
  \<open>tell\<close> over records bounded by length markers. A file is the list of its records;
  a record occupies its payload plus one 4-byte marker on each side; the cursor is a
  byte position. A read succeeds where a record of the asked kind begins and is an
  \<open>IOFault\<close> anywhere else. The interface has no attribute \<open>name\<close>: reading
  \<open>f.name\<close> raises \<open>AttributeError\<close>.
\<close>

datatype 'v frecord = IntRec "32 word" | VecRec "'v list"

fun rec_bytes :: "'v frecord \<Rightarrow> int" where
  "rec_bytes (IntRec w) = 4 + 4 + 4"
| "rec_bytes (VecRec xs) = 4 + 8 * int (length xs) + 4"

fun rec_at :: "'v frecord list \<Rightarrow> int \<Rightarrow> 'v frecord option" where
  "rec_at [] p = None"
| "rec_at (r # rs) p =
     (if p = 0 then Some r else if p < rec_bytes r then None else rec_at rs (p - rec_bytes r))"

record 'v FortranFile =
  records :: "'v frecord list"
  cursor :: int

text \<open>
  Modelled from the spec: \<open>f.name\<close>. The reader of the spec has the six operations
  above and no other attribute.
\<close>

definition reader_name :: "'v FortranFile \<Rightarrow> fault + string" where
  "reader_name f = Inl AttributeError"

definition tell :: "'v FortranFile \<Rightarrow> int" where
  "tell f = cursor f"

text \<open>\<open>seek(pos, whence)\<close>: \<open>whence = 0\<close> is absolute, \<open>whence = 1\<close> relative.\<close>

definition seek :: "'v FortranFile \<Rightarrow> int \<Rightarrow> nat \<Rightarrow> 'v FortranFile" where
  "seek f pos whence = (if whence = 1 then f\<lparr>cursor := cursor f + pos\<rparr> else f\<lparr>cursor := pos\<rparr>)"

definition read_int :: "'v FortranFile \<Rightarrow> fault + (int \<times> 'v FortranFile)" where
  "read_int f =
     (case rec_at (records f) (cursor f) of
        Some (IntRec w) \<Rightarrow> Inr (sint w, f\<lparr>cursor := cursor f + rec_bytes (IntRec w :: 'v frecord)\<rparr>)
      | _ \<Rightarrow> Inl IOFault)"

definition read_vector :: "'v FortranFile \<Rightarrow> fault + ('v list \<times> 'v FortranFile)" where
  "read_vector f =
     (case rec_at (records f) (cursor f) of
        Some (VecRec xs) \<Rightarrow> Inr (xs, f\<lparr>cursor := cursor f + rec_bytes (VecRec xs)\<rparr>)
      | _ \<Rightarrow> Inl IOFault)"

text \<open>\<open>skip(n)\<close> steps over \<open>n\<close> records of any kind.\<close>

fun skip :: "'v FortranFile \<Rightarrow> nat \<Rightarrow> fault + 'v FortranFile" where
  "skip f 0 = Inr f"
| "skip f (Suc n) =
     (case rec_at (records f) (cursor f) of
        None \<Rightarrow> Inl IOFault
      | Some r \<Rightarrow> skip (f\<lparr>cursor := cursor f + rec_bytes r\<rparr>) n)"

subsection \<open>\<open>read_amr\<close>\<close>

text \<open>
  The entries of \<open>headers\<close> that the readers use. \<open>nx\<close> holds the three values
  \<open>(i - 1) / 2\<close> already; coordinates are reals here, no claim depends on rounding.
\<close>

record headers =
  ndim :: int
  numbl :: "int list list"
  nboundary :: int
  nx :: "real \<times> real \<times> real"
  nlevelmax :: int
  ncpu :: int

text \<open>
  The octree container is a collaborator outside the sources: its \<open>add\<close> is a
  parameter, a function from the container and the arguments of the call to the count it
  returns and the container after the call. Every call is also written to
  \<open>insertions\<close>, in order, so that claims about the calls can be stated.
\<close>

record 'p insertion =
  ins_domain :: int
  ins_level :: int
  ins_positions :: "'p list"
  ins_added :: int

type_synonym position = "real \<times> real \<times> real"

type_synonym 'o oct_add = "'o \<Rightarrow> int \<Rightarrow> int \<Rightarrow> position list \<Rightarrow> int \<times> 'o"

record ('v, 'o) amr_state =
  amr_file :: "'v FortranFile"
  buffer_size :: int
  max_level :: int
  oct_handler :: 'o
  insertions :: "position insertion list"

text \<open>\<open>2**ndim\<close> on C integers (\<open>cpow\<close>).\<close>

definition two_to :: "int \<Rightarrow> int" where
  "two_to n = (if n < 0 then 0 else 2 ^ nat n)"

definition amr_skip_len :: "int \<Rightarrow> int" where
  "amr_skip_len nd = 1 + 2 * nd + two_to nd + two_to nd + two_to nd"

text \<open>
  \<open>pos[:ng, k] = v\<close>: the slice has \<open>ng\<close> rows when \<open>0 \<le> ng \<le> buffer_size\<close> and
  \<open>buffer_size + ng\<close> (or none) when \<open>ng\<close> is negative; numpy accepts a vector of that
  length or of length one, which it repeats.
\<close>

definition slice_rows :: "int \<Rightarrow> int \<Rightarrow> nat" where
  "slice_rows bsize ng = (if 0 \<le> ng then nat (min ng bsize) else nat (bsize + ng))"

definition assign_column :: "nat \<Rightarrow> 'a list \<Rightarrow> fault + 'a list" where
  "assign_column n v =
     (if length v = n then Inr v
      else if length v = 1 then Inr (replicate n (hd v))
      else Inl ValueError)"

fun zip3 :: "'a list \<Rightarrow> 'b list \<Rightarrow> 'c list \<Rightarrow> ('a \<times> 'b \<times> 'c) list" where
  "zip3 xs ys zs = zip xs (zip ys zs)"

text \<open>The grid count \<open>ng\<close> of one \<open>(ilevel, icpu)\<close> pair, lines 59 to 62.\<close>

definition grid_count :: "headers \<Rightarrow> int list \<Rightarrow> int \<Rightarrow> int \<Rightarrow> fault + int" where
  "grid_count h ngridbound ilevel icpu =
     (if icpu < ncpu h then index2 (numbl h) ilevel icpu
      else case index1 ngridbound (icpu - ncpu h + nboundary h * ilevel) of
             Inl e \<Rightarrow> Inl e
           | Inr g \<Rightarrow> Inr (to_int32 g))"

text \<open>One read of a coordinate vector, shifted and stored in a column of \<open>pos\<close>.\<close>

definition read_coordinate ::
  "real FortranFile \<Rightarrow> nat \<Rightarrow> real \<Rightarrow> fault + (real list \<times> real FortranFile)" where
  "read_coordinate f rows shift =
     (case read_vector f of
        Inl e \<Rightarrow> Inl e
      | Inr (v, f') \<Rightarrow>
          (case assign_column rows (map (\<lambda>x. x - shift) v) of
             Inl e \<Rightarrow> Inl e
           | Inr col \<Rightarrow> Inr (col, f')))"

text \<open>The body of the inner loop, lines 59 to 86.\<close>

definition read_amr_body ::
  "'o oct_add \<Rightarrow> headers \<Rightarrow> int list \<Rightarrow> int \<Rightarrow> int \<Rightarrow> int \<Rightarrow>
   (real, 'o) amr_state \<Rightarrow> fault + (real, 'o) amr_state" where
  "read_amr_body add h ngridbound min_level ilevel icpu s =
     (case grid_count h ngridbound ilevel icpu of
        Inl e \<Rightarrow> Inl e
      | Inr ng \<Rightarrow>
          if ng = 0 then Inr s
          else
            (case skip (amr_file s) 3 of
               Inl e \<Rightarrow> Inl e
             | Inr f1 \<Rightarrow>
                 let bsize = (if ng > buffer_size s then ng else buffer_size s);
                     rows = slice_rows bsize ng
                 in
                 (case read_coordinate f1 rows (fst (nx h)) of
                    Inl e \<Rightarrow> Inl e
                  | Inr (xs, f2) \<Rightarrow>
                 (case read_coordinate f2 rows (fst (snd (nx h))) of
                    Inl e \<Rightarrow> Inl e
                  | Inr (ys, f3) \<Rightarrow>
                 (case read_coordinate f3 rows (snd (snd (nx h))) of
                    Inl e \<Rightarrow> Inl e
                  | Inr (zs, f4) \<Rightarrow>
                 (case skip f4 (nat (amr_skip_len (ndim h))) of
                    Inl e \<Rightarrow> Inl e
                  | Inr f5 \<Rightarrow>
                      let s1 = s\<lparr>amr_file := f5, buffer_size := bsize\<rparr> in
                      if ilevel \<ge> min_level then
                        (case add (oct_handler s1) (icpu + 1) (ilevel - min_level) (zip3 xs ys zs) of
                           (n, oct') \<Rightarrow>
                             Inr (s1\<lparr>oct_handler := oct',
                                     insertions := insertions s1 @
                                       [\<lparr>ins_domain = icpu + 1, ins_level = ilevel - min_level,
                                         ins_positions = zip3 xs ys zs, ins_added = n\<rparr>],
                                     max_level := (if n > 0 then max (ilevel - min_level) (max_level s1)
                                                   else max_level s1)\<rparr>))
                      else Inr s1))))))"

definition read_amr_loops ::
  "'o oct_add \<Rightarrow> headers \<Rightarrow> int list \<Rightarrow> int \<Rightarrow>
   (real, 'o) amr_state \<Rightarrow> fault + (real, 'o) amr_state" where
  "read_amr_loops add h ngridbound min_level s =
     for_each
       (\<lambda>ilevel. for_each (read_amr_body add h ngridbound min_level ilevel)
                    (range_int (nboundary h + ncpu h)))
       (range_int (nlevelmax h)) s"

text \<open>
  \<open>read_amr\<close>: the returned depth, together with the final state (file cursor,
  container and the calls made to it).
\<close>

definition read_amr ::
  "'o oct_add \<Rightarrow> real FortranFile \<Rightarrow> headers \<Rightarrow> int list \<Rightarrow> int \<Rightarrow> 'o \<Rightarrow>
   fault + (int \<times> (real, 'o) amr_state)" where
  "read_amr add f h ngridbound min_level oct =
     (case read_amr_loops add h ngridbound min_level
             \<lparr>amr_file = f, buffer_size = 0, max_level = 0, oct_handler = oct, insertions = []\<rparr> of
        Inl e \<Rightarrow> Inl e
      | Inr s \<Rightarrow> Inr (max_level s, s))"

text \<open>
  The levels of the insertions that added at least one new grid (\<open>n > 0\<close>), in the
  order of the calls.
\<close>

definition added_levels :: "'p insertion list \<Rightarrow> int list" where
  "added_levels calls = map ins_level (filter (\<lambda>c. ins_added c > 0) calls)"

text \<open>The invariant of both loops of \<open>read_amr\<close>; \<open>b\<close> is \<open>nlevelmax - min_level\<close>.\<close>

definition amr_inv :: "int \<Rightarrow> (real, 'o) amr_state \<Rightarrow> bool" where
  "amr_inv b s \<longleftrightarrow>
     max_level s = Max (insert 0 (set (added_levels (insertions s)))) \<and>
     (\<forall>c \<in> set (insertions s). 0 \<le> ins_level c \<and> ins_level c < b)"

text \<open>
  Sample inputs: one domain, one dimension (nine trailing records per block), two
  levels. A container whose \<open>add\<close> reports every grid as new, and one that never does.
\<close>

definition count_add :: "unit oct_add" where
  "count_add oct d l ps = (int (length ps), oct)"

definition null_add :: "unit oct_add" where
  "null_add oct d l ps = (0, oct)"

definition amr_block :: "real list \<Rightarrow> real list \<Rightarrow> real list \<Rightarrow> real frecord list" where
  "amr_block xs ys zs =
     [IntRec 0, IntRec 0, IntRec 0, VecRec xs, VecRec ys, VecRec zs,
      IntRec 0, IntRec 0, IntRec 0, IntRec 0, IntRec 0, IntRec 0, IntRec 0, IntRec 0, IntRec 0]"

definition deep_headers :: headers where
  "deep_headers =
     \<lparr>ndim = 1, numbl = [[0], [2]], nboundary = 1, nx = (0, 0, 0), nlevelmax = 2, ncpu = 1\<rparr>"

definition deep_file :: "real FortranFile" where
  "deep_file = \<lparr>records = amr_block [1, 2] [3, 4] [5, 6], cursor = 0\<rparr>"

definition flat_headers :: headers where
  "flat_headers =
     \<lparr>ndim = 1, numbl = [[1], [0]], nboundary = 0, nx = (0, 0, 0), nlevelmax = 2, ncpu = 1\<rparr>"

definition flat_file :: "real FortranFile" where
  "flat_file = \<lparr>records = amr_block [1] [3] [5], cursor = 0\<rparr>"

definition empty_headers :: headers where
  "empty_headers =
     \<lparr>ndim = 1, numbl = [[0], [0]], nboundary = 0, nx = (0, 0, 0), nlevelmax = 2, ncpu = 1\<rparr>"

definition empty_file :: "real FortranFile" where
  "empty_file = \<lparr>records = [], cursor = 0\<rparr>"

subsection \<open>\<open>read_offset\<close>\<close>

text \<open>
  \<open>skip_len(Nskip, record_len)\<close>, line 91: arithmetic on C \<open>int\<close>, wrapping at 32 bits;
  \<open>DOUBLE_SIZE\<close> and \<open>INT64_SIZE\<close> are both 8.
\<close>

definition skip_len :: "int \<Rightarrow> int \<Rightarrow> int" where
  "skip_len Nskip record_len =
     sint ((word_of_int Nskip :: 32 word) * (word_of_int record_len * 8 + 8))"

record 'v offset_state =
  off_file :: "'v FortranFile"
  offset_view :: "int list list"
  level_count_view :: "int list list"

text \<open>
  \<open>a[i, j] = v\<close> on a memoryview. Both writes of \<open>read_offset\<close> have
  \<open>0 \<le> i < ncpu_and_bound\<close> from the loop and \<open>0 \<le> j < n_levels\<close> from the guard
  \<open>ilevel >= min_level\<close>, so they stay inside the tables.
\<close>

definition upd2 :: "'a list list \<Rightarrow> int \<Rightarrow> int \<Rightarrow> 'a \<Rightarrow> 'a list list" where
  "upd2 a i j v = a[nat i := (a ! nat i)[nat j := v]]"

text \<open>
  The body of the inner loop, lines 127 to 141. The raise statement of lines 133 to 136
  evaluates its arguments first, \<open>f.name\<close> among them.
\<close>

definition read_offset_body ::
  "int \<Rightarrow> int \<Rightarrow> int \<Rightarrow> int \<Rightarrow> 'v offset_state \<Rightarrow> fault + 'v offset_state" where
  "read_offset_body min_level Nskip ilevel icpu s =
     (case read_int (off_file s) of
        Inl e \<Rightarrow> Inl e
      | Inr (file_ilevel, f1) \<Rightarrow>
     (case read_int f1 of
        Inl e \<Rightarrow> Inl e
      | Inr (file_ncache, f2) \<Rightarrow>
          if file_ncache = 0 then Inr (s\<lparr>off_file := f2\<rparr>)
          else if file_ilevel \<noteq> ilevel + 1 then
            (case reader_name f2 of
               Inl e \<Rightarrow> Inl e
             | Inr name \<Rightarrow> Inl (YTIllDefinedAMRData name file_ilevel ilevel))
          else
            let s1 = (if ilevel \<ge> min_level
                      then s\<lparr>offset_view :=
                               upd2 (offset_view s) icpu (ilevel - min_level) (tell f2),
                             level_count_view :=
                               upd2 (level_count_view s) icpu (ilevel - min_level) file_ncache\<rparr>
                      else s)
            in Inr (s1\<lparr>off_file := seek f2 (skip_len Nskip file_ncache) 1\<rparr>)))"

text \<open>
  \<open>read_offset\<close> returns the two tables; the model returns the file after the pass as
  well. \<open>np.full\<close> and \<open>np.zeros\<close> refuse a negative dimension.
\<close>

definition read_offset ::
  "'v FortranFile \<Rightarrow> int \<Rightarrow> int \<Rightarrow> int \<Rightarrow> headers \<Rightarrow> int \<Rightarrow>
   fault + (int list list \<times> int list list \<times> 'v FortranFile)" where
  "read_offset f min_level domain_id nvar h Nskip =
     (let n_levels = nlevelmax h - min_level;
          ncpu_and_bound = nboundary h + ncpu h;
          twotondim = two_to (ndim h);
          Nskip1 = (if Nskip = - 1 then to_int32 (twotondim * nvar) else Nskip)
      in
      if ncpu_and_bound < 0 \<or> n_levels < 0 then Inl ValueError
      else
        (case for_each
                (\<lambda>ilevel. for_each (read_offset_body min_level Nskip1 ilevel)
                             (range_int ncpu_and_bound))
                (range_int (nlevelmax h))
                \<lparr>off_file = f,
                 offset_view = replicate (nat ncpu_and_bound) (replicate (nat n_levels) (- 1)),
                 level_count_view = replicate (nat ncpu_and_bound) (replicate (nat n_levels) 0)\<rparr> of
           Inl e \<Rightarrow> Inl e
         | Inr s \<Rightarrow> Inr (offset_view s, level_count_view s, off_file s)))"

text \<open>
  Modelled from the spec: the layout of the data section that \<open>read_offset\<close> walks
  (the writer is not among the sources). One block per \<open>(level, domain)\<close> pair, in loop
  order: the declared level id, the declared record count and, when the count is not
  zero, \<open>Nskip\<close> field records of that many values each.
\<close>

record 'v data_block =
  declared_level :: "32 word"
  declared_count :: "32 word"
  payload :: "'v list list"

definition block_records :: "'v data_block \<Rightarrow> 'v frecord list" where
  "block_records b = IntRec (declared_level b) # IntRec (declared_count b) # map VecRec (payload b)"

definition section_records :: "'v data_block list list \<Rightarrow> 'v frecord list" where
  "section_records bss = concat (map (\<lambda>bs. concat (map block_records bs)) bss)"

definition total_bytes :: "'v frecord list \<Rightarrow> int" where
  "total_bytes rs = sum_list (map rec_bytes rs)"

text \<open>
  A block is well formed for \<open>Nskip\<close> when an absent block has no payload and a present
  one has \<open>Nskip\<close> records of \<open>declared_count\<close> values.
\<close>

definition wf_block :: "int \<Rightarrow> 'v data_block \<Rightarrow> bool" where
  "wf_block Nskip b \<longleftrightarrow>
     (if declared_count b = 0 then payload b = []
      else 0 < sint (declared_count b) \<and> 0 \<le> Nskip \<and>
           int (length (payload b)) = Nskip \<and>
           list_all (\<lambda>v. int (length v) = sint (declared_count b)) (payload b))"

text \<open>
  Not part of the layout: the byte length of the payload of a block is below \<open>2^31\<close>,
  so that the C \<open>int\<close> product of \<open>skip_len\<close> does not wrap.
\<close>

definition payload_below_2G :: "int \<Rightarrow> 'v data_block \<Rightarrow> bool" where
  "payload_below_2G Nskip b \<longleftrightarrow> Nskip * (8 * sint (declared_count b) + 8) < 2 ^ 31"

definition wf_section :: "int \<Rightarrow> int \<Rightarrow> int \<Rightarrow> 'v data_block list list \<Rightarrow> bool" where
  "wf_section Nskip nlevels ndomains bss \<longleftrightarrow>
     int (length bss) = nlevels \<and>
     list_all (\<lambda>bs. int (length bs) = ndomains \<and> list_all (wf_block Nskip) bs) bss"

text \<open>A present block whose declared level id is not the loop level plus one.\<close>

definition mislabeled :: "int \<Rightarrow> 'v data_block \<Rightarrow> bool" where
  "mislabeled ilevel b \<longleftrightarrow>
     declared_count b \<noteq> 0 \<and> sint (declared_level b) \<noteq> ilevel + 1"

definition section_mislabeled :: "'v data_block list list \<Rightarrow> bool" where
  "section_mislabeled bss \<longleftrightarrow>
     list_ex (\<lambda>(ilevel, bs). list_ex (mislabeled (int ilevel)) bs) (enumerate 0 bss)"

text \<open>The pairing that \<open>read_offset\<close> keeps between its two tables.\<close>

definition paired :: "int list list \<Rightarrow> int list list \<Rightarrow> bool" where
  "paired offs counts \<longleftrightarrow> list_all2 (list_all2 (\<lambda>p n. p \<noteq> - 1 \<longleftrightarrow> n \<noteq> 0)) offs counts"

text \<open>
  Sample data sections: one dimension and one variable (two field records per block),
  one domain, two levels, one value per record.
\<close>

definition offset_headers :: headers where
  "offset_headers =
     \<lparr>ndim = 1, numbl = [], nboundary = 0, nx = (0, 0, 0), nlevelmax = 2, ncpu = 1\<rparr>"

definition present_block :: "32 word \<Rightarrow> real data_block" where
  "present_block lvl = \<lparr>declared_level = lvl, declared_count = 1, payload = [[1], [2]]\<rparr>"

definition absent_block :: "32 word \<Rightarrow> real data_block" where
  "absent_block lvl = \<lparr>declared_level = lvl, declared_count = 0, payload = []\<rparr>"

definition section_file :: "real data_block list list \<Rightarrow> real FortranFile" where
  "section_file bss = \<lparr>records = section_records bss, cursor = 0\<rparr>"

definition clean_section :: "real data_block list list" where
  "clean_section = [[present_block 1], [present_block 2]]"

definition sparse_section :: "real data_block list list" where
  "sparse_section = [[present_block 1], [absent_block 2]]"

definition mislabeled_section :: "real data_block list list" where
  "mislabeled_section = [[present_block 1], [present_block 5]]"

definition zero_mislabel_section :: "real data_block list list" where
  "zero_mislabel_section = [[present_block 1], [absent_block 7]]"

text \<open>
  A data section with one large block: three dimensions and eleven variables (88 field
  records per block), one domain, two levels; the block of level 0 holds 3050403 values
  per record, \<open>88 * (8 * 3050403 + 8) = 2147484416\<close> bytes of payload, and the block of
  level 1 is absent.
\<close>

definition wide_headers :: headers where
  "wide_headers =
     \<lparr>ndim = 3, numbl = [], nboundary = 0, nx = (0, 0, 0), nlevelmax = 2, ncpu = 1\<rparr>"

definition big_block :: "real data_block" where
  "big_block =
     \<lparr>declared_level = 1, declared_count = 3050403,
      payload = replicate 88 (replicate 3050403 0)\<rparr>"

definition big_section :: "real data_block list list" where
  "big_section = [[big_block], [absent_block 2]]"

subsection \<open>\<open>fill_hydro\<close>\<close>

text \<open>
  The requested names, \<open>fields\<close> in the source, are \<open>flds\<close> here (the record
  package has a constant of the name).

  The jump table, lines 180 to 189. \<open>walk_fields\<close> lists the values the loop stores at
  \<open>jumps[0]\<close>, \<open>jumps[1]\<close>, ... and the one stored after it; \<open>jumps\<close> has
  \<open>nfields_selected + 1\<close> cells, zero where nothing is stored, and a store beyond the
  last cell is unchecked.
\<close>

fun walk_fields :: "string list \<Rightarrow> string list \<Rightarrow> int \<Rightarrow> int list" where
  "walk_fields [] flds jump_len = [jump_len]"
| "walk_fields (field # rest) flds jump_len =
     (if field \<in> set flds then jump_len # walk_fields rest flds 0
      else walk_fields rest flds (jump_len + 1))"

definition jump_table :: "string list \<Rightarrow> string list \<Rightarrow> fault + int list" where
  "jump_table all_fields flds =
     (let stored = walk_fields all_fields flds 0;
          cells = length flds + 1
      in if length stored > cells then Inl IndexFault
         else Inr (stored @ replicate (cells - length stored) 0))"

text \<open>
  The decode buffer \<open>buffer[row, i, j]\<close>, in its Fortran order: the list over the
  requested-field index \<open>j\<close> of the slices \<open>buffer[:, :, j]\<close>, a slice the list over the
  sub-cell \<open>i\<close> of its columns, a column the list of its rows. \<open>np.empty\<close> leaves the
  cells unwritten: \<open>None\<close>.
\<close>

type_synonym 'v slice = "'v option list list"

type_synonym 'v buffer = "'v slice list"

definition new_buffer :: "nat \<Rightarrow> nat \<Rightarrow> nat \<Rightarrow> 'v buffer" where
  "new_buffer rows subcells nfields = replicate nfields (replicate subcells (replicate rows None))"

text \<open>\<open>level_count.max()\<close>: numpy refuses an array without elements.\<close>

definition table_max :: "int list list \<Rightarrow> fault + int" where
  "table_max a = (if concat a = [] then Inl ValueError else Inr (Max (set (concat a))))"

text \<open>\<open>offsets.shape[1]\<close>.\<close>

definition shape1 :: "'a list list \<Rightarrow> int" where
  "shape1 a = (case a of [] \<Rightarrow> 0 | row # rest \<Rightarrow> int (length row))"

text \<open>
  Modelled from the spec: \<open>read_vector_inplace\<close> of the record reader, which is not
  among the sources, reads one vector record into the memory that begins at
  \<open>buffer[0, i, j]\<close>; the length comes from the record. The column has as many rows as
  the buffer; a longer record is the fault \<open>BufferOverrun\<close>.
\<close>

definition read_vector_inplace ::
  "'v FortranFile \<Rightarrow> 'v buffer \<Rightarrow> nat \<Rightarrow> nat \<Rightarrow> fault + ('v buffer \<times> 'v FortranFile)" where
  "read_vector_inplace f buf i j =
     (case read_vector f of
        Inl e \<Rightarrow> Inl e
      | Inr (v, f') \<Rightarrow>
          if j < length buf \<and> i < length (buf ! j) \<and> length v \<le> length (buf ! j ! i)
          then Inr (buf[j := (buf ! j)[i := map Some v @ drop (length v) (buf ! j ! i)]], f')
          else Inl BufferOverrun)"

text \<open>
  The calls made on the octree container, in order. Of the arguments only the level,
  the field dictionary \<open>tmp\<close> (with the contents of the aliased slices at the time of the
  call) and the domain id are kept; \<open>levels\<close>, \<open>cell_inds\<close>, \<open>file_inds\<close>, \<open>domains\<close>
  and \<open>tr\<close> are handed on as they came.
\<close>

datatype 'v fill_call =
    FillLevel int "string \<rightharpoonup> 'v slice"
  | FillLevelWithDomain int "string \<rightharpoonup> 'v slice" int

fun call_level :: "'v fill_call \<Rightarrow> int" where
  "call_level (FillLevel l tmp) = l"
| "call_level (FillLevelWithDomain l tmp d) = l"

fun call_tmp :: "'v fill_call \<Rightarrow> (string \<rightharpoonup> 'v slice)" where
  "call_tmp (FillLevel l tmp) = tmp"
| "call_tmp (FillLevelWithDomain l tmp d) = tmp"

fun call_domain :: "'v fill_call \<Rightarrow> int option" where
  "call_domain (FillLevel l tmp) = None"
| "call_domain (FillLevelWithDomain l tmp d) = Some d"

text \<open>
  \<open>reads\<close> is not a variable of the source: it lists the cursor positions at which
  \<open>read_vector_inplace\<close> was called.
\<close>

record 'v hydro_state =
  hyd_file :: "'v FortranFile"
  buffer :: "'v buffer"
  jump_len :: int
  reads :: "int list"
  calls :: "'v fill_call list"

text \<open>Lines 212 to 216: one requested field of one sub-cell.\<close>

definition read_field :: "int \<Rightarrow> nat \<Rightarrow> nat \<Rightarrow> int \<Rightarrow> 'v hydro_state \<Rightarrow> fault + 'v hydro_state" where
  "read_field nc i j jump s =
     (let jl = jump_len s + jump;
          s1 = (if jl > 0
                then s\<lparr>hyd_file := seek (hyd_file s) (skip_len jl nc) 1, jump_len := 0\<rparr>
                else s\<lparr>jump_len := jl\<rparr>)
      in case read_vector_inplace (hyd_file s1) (buffer s1) i j of
           Inl e \<Rightarrow> Inl e
         | Inr (buf, f') \<Rightarrow>
             Inr (s1\<lparr>hyd_file := f', buffer := buf,
                     reads := reads s1 @ [cursor (hyd_file s1)]\<rparr>))"

text \<open>Lines 211 to 218: one sub-cell.\<close>

definition read_subcell ::
  "int list \<Rightarrow> nat \<Rightarrow> int \<Rightarrow> nat \<Rightarrow> 'v hydro_state \<Rightarrow> fault + 'v hydro_state" where
  "read_subcell jumps nfields_selected nc i s =
     (case for_each (\<lambda>j. read_field nc i j (jumps ! j)) [0..<nfields_selected] s of
        Inl e \<Rightarrow> Inl e
      | Inr s' \<Rightarrow> Inr (s'\<lparr>jump_len := jump_len s' + jumps ! nfields_selected\<rparr>))"

text \<open>Lines 204 to 218: the seeks and reads of one block.\<close>

definition decode_block ::
  "int list \<Rightarrow> nat \<Rightarrow> int \<Rightarrow> int \<Rightarrow> int \<Rightarrow> 'v hydro_state \<Rightarrow> fault + 'v hydro_state" where
  "decode_block jumps nfields_selected twotondim offset nc s =
     (let first_field_index = to_int32 (jumps ! 0) in
      for_each (read_subcell jumps nfields_selected nc) [0..<nat twotondim]
        (s\<lparr>hyd_file := seek (hyd_file s) (offset + skip_len first_field_index nc) 0,
           jump_len := - first_field_index\<rparr>))"

text \<open>Lines 227 to 229: the dictionary of aliased slices.\<close>

definition alias_buffer :: "string list \<Rightarrow> 'v buffer \<Rightarrow> (string \<rightharpoonup> 'v slice)" where
  "alias_buffer flds buf =
     fold (\<lambda>(i, field) tmp. tmp(field \<mapsto> buf ! i)) (enumerate 0 flds) Map.empty"

text \<open>Lines 197 to 236: the body of the loop over the selected domains.\<close>

definition fill_block ::
  "int list list \<Rightarrow> int list list \<Rightarrow> int list \<Rightarrow> int \<Rightarrow> string list \<Rightarrow> int list \<Rightarrow>
   int \<Rightarrow> nat \<Rightarrow> 'v hydro_state \<Rightarrow> fault + 'v hydro_state" where
  "fill_block offsets level_count cpu_list twotondim flds jumps ilevel ii s =
     (let icpu = to_int32 (cpu_list ! ii) in
      case index2 level_count icpu ilevel of
        Inl e \<Rightarrow> Inl e
      | Inr c \<Rightarrow>
          let nc = to_int32 c in
          if nc = 0 then Inr s
          else
            (case index2 offsets icpu ilevel of
               Inl e \<Rightarrow> Inl e
             | Inr offset \<Rightarrow>
                 if offset = - 1 then Inr s
                 else
                   (case decode_block jumps (length flds) twotondim offset nc s of
                      Inl e \<Rightarrow> Inl e
                    | Inr s' \<Rightarrow>
                        let tmp = alias_buffer flds (buffer s') in
                        if length cpu_list > 1
                        then Inr (s'\<lparr>calls := calls s' @ [FillLevelWithDomain ilevel tmp (icpu + 1)]\<rparr>)
                        else Inr (s'\<lparr>calls := calls s' @ [FillLevel ilevel tmp]\<rparr>))))"

definition fill_hydro ::
  "'v FortranFile \<Rightarrow> int list list \<Rightarrow> int list list \<Rightarrow> int list \<Rightarrow> int \<Rightarrow>
   string list \<Rightarrow> string list \<Rightarrow> fault + 'v hydro_state" where
  "fill_hydro f offsets level_count cpu_enumerator nd all_fields flds =
     (let twotondim = two_to nd;
          nlevels = shape1 offsets
      in case jump_table all_fields flds of
           Inl e \<Rightarrow> Inl e
         | Inr jumps \<Rightarrow>
             (case table_max level_count of
                Inl e \<Rightarrow> Inl e
              | Inr rows \<Rightarrow>
                  if rows < 0 then Inl ValueError
                  else
                    for_each
                      (\<lambda>ilevel. for_each
                         (fill_block offsets level_count cpu_enumerator twotondim flds jumps ilevel)
                         [0..<length cpu_enumerator])
                      (range_int nlevels)
                      \<lparr>hyd_file = f,
                       buffer = new_buffer (nat rows) (nat twotondim) (length flds),
                       jump_len = last (walk_fields all_fields flds 0),
                       reads = [], calls = []\<rparr>))"

text \<open>
  The naive reference plan, in the words of the spec: rewind to the start of the block,
  then for every sub-cell walk all fields in on-disk order, reading the record of a
  requested field into the next column and skipping the record of every other field, one
  record at a time.
\<close>

definition naive_field ::
  "string list \<Rightarrow> int \<Rightarrow> nat \<Rightarrow> string \<Rightarrow> nat \<times> 'v hydro_state \<Rightarrow>
   fault + (nat \<times> 'v hydro_state)" where
  "naive_field flds nc i field js =
     (case js of (j, s) \<Rightarrow>
        if field \<in> set flds
        then (case read_vector_inplace (hyd_file s) (buffer s) i j of
                Inl e \<Rightarrow> Inl e
              | Inr (buf, f') \<Rightarrow>
                  Inr (Suc j, s\<lparr>hyd_file := f', buffer := buf,
                                reads := reads s @ [cursor (hyd_file s)]\<rparr>))
        else Inr (j, s\<lparr>hyd_file := seek (hyd_file s) (8 * nc + 8) 1\<rparr>))"

definition naive_subcell ::
  "string list \<Rightarrow> string list \<Rightarrow> int \<Rightarrow> nat \<Rightarrow> 'v hydro_state \<Rightarrow> fault + 'v hydro_state" where
  "naive_subcell all_fields flds nc i s =
     (case for_each (naive_field flds nc i) all_fields (0, s) of
        Inl e \<Rightarrow> Inl e
      | Inr (j, s') \<Rightarrow> Inr s')"

definition naive_decode_block ::
  "string list \<Rightarrow> string list \<Rightarrow> int \<Rightarrow> int \<Rightarrow> int \<Rightarrow> 'v hydro_state \<Rightarrow> fault + 'v hydro_state" where
  "naive_decode_block all_fields flds twotondim offset nc s =
     for_each (naive_subcell all_fields flds nc) [0..<nat twotondim]
       (s\<lparr>hyd_file := seek (hyd_file s) offset 0\<rparr>)"

text \<open>The two plans agree: the same fault, or the same buffer and the same read positions.\<close>

definition same_decode :: "fault + 'v hydro_state \<Rightarrow> fault + 'v hydro_state \<Rightarrow> bool" where
  "same_decode a b \<longleftrightarrow>
     (case (a, b) of
        (Inl e, Inl e') \<Rightarrow> e = e'
      | (Inr s, Inr t) \<Rightarrow> buffer s = buffer t \<and> reads s = reads t
      | _ \<Rightarrow> False)"



definition call_tag :: "'v fill_call \<Rightarrow> int \<times> int option" where
  "call_tag c = (call_level c, call_domain c)"

text \<open>A buffer of the given dimensions.\<close>

definition buffer_shape :: "nat \<Rightarrow> nat \<Rightarrow> nat \<Rightarrow> 'v buffer \<Rightarrow> bool" where
  "buffer_shape rows subcells nfields buf \<longleftrightarrow>
     length buf = nfields \<and>
     list_all (\<lambda>sl. length sl = subcells \<and> list_all (\<lambda>col. length col = rows) sl) buf"


text \<open>
  A sample block: one dimension (two sub-cells), two fields on disk, one cell. The
  records of \<open>density\<close> hold 10 and 11, those of \<open>pressure\<close> 20 and 21. A second
  domain has the same layout with 30, 40, 31 and 41.
\<close>

definition hydro_file :: "real FortranFile" where
  "hydro_file =
     \<lparr>records = [IntRec 1, IntRec 1, VecRec [10], VecRec [20], VecRec [11], VecRec [21],
                 IntRec 1, IntRec 1, VecRec [30], VecRec [40], VecRec [31], VecRec [41]],
      cursor = 0\<rparr>"

definition hydro_fields :: "string list" where
  "hydro_fields = [''density'', ''pressure'']"

definition hydro_start :: "real hydro_state" where
  "hydro_start =
     \<lparr>hyd_file = hydro_file, buffer = new_buffer 1 2 1, jump_len = 0, reads = [], calls = []\<rparr>"

text \<open>
  A large block: one dimension (two sub-cells), eleven fields on disk, 26843545 cells,
  so that one record is \<open>8 * 26843545 + 8 = 214748368\<close> bytes long and the ten records
  before the last field of a sub-cell are \<open>2147483680\<close> bytes.
\<close>

definition wide_fields :: "string list" where
  "wide_fields =
     [''density'', ''velocity_x'', ''velocity_y'', ''velocity_z'', ''pressure'', ''metallicity'',
      ''scalar_01'', ''scalar_02'', ''scalar_03'', ''scalar_04'', ''scalar_05'']"

definition wide_record :: "real frecord" where
  "wide_record = VecRec (replicate 26843545 0)"

definition wide_file :: "real FortranFile" where
  "wide_file = \<lparr>records = replicate 22 wide_record, cursor = 0\<rparr>"

definition wide_start :: "real hydro_state" where
  "wide_start =
     \<lparr>hyd_file = wide_file, buffer = new_buffer 26843545 2 1, jump_len = 0, reads = [],
      calls = []\<rparr>"





text \<open>
  The loop of \<open>read_subcell\<close> as a recursion over the jump table: every entry but the last
  is followed by a read, the last is added to \<open>jump_len\<close>.
\<close>

fun table_walk :: "int \<Rightarrow> nat \<Rightarrow> nat \<Rightarrow> int list \<Rightarrow> 'v hydro_state \<Rightarrow> fault + 'v hydro_state" where
  "table_walk nc i j [] s = Inr s"
| "table_walk nc i j [trailing] s = Inr (s\<lparr>jump_len := jump_len s + trailing\<rparr>)"
| "table_walk nc i j (jump # next_jump # rest) s =
     (case read_field nc i j jump s of
        Inl e \<Rightarrow> Inl e
      | Inr s' \<Rightarrow> table_walk nc i (Suc j) (next_jump # rest) s')"

text \<open>
  The relation kept between the state \<open>s\<close> of the source's plan and the state \<open>t\<close> of
  the naive plan: the same buffer and read positions, and the naive cursor ahead of the
  source's by the skip that the source still owes, \<open>jump_len\<close> records, plus the \<open>a\<close>
  records the naive plan has skipped since the last requested field. \<open>reclen\<close> is the
  byte length of one record.
\<close>

definition decode_rel :: "int \<Rightarrow> int \<Rightarrow> 'v hydro_state \<Rightarrow> 'v hydro_state \<Rightarrow> bool" where
  "decode_rel reclen a s t \<longleftrightarrow>
     buffer t = buffer s \<and> reads t = reads s \<and>
     hyd_file t = (hyd_file s)\<lparr>cursor := cursor (hyd_file s) + reclen * (jump_len s + a)\<rparr>"

definition requested_in :: "string list \<Rightarrow> string list \<Rightarrow> bool" where
  "requested_in flds afs \<longleftrightarrow> list_ex (\<lambda>f. f \<in> set flds) afs"


section \<open>Properties\<close>

subsection \<open>Loops and ranges\<close>

lemma for_each_invariant:
  assumes "for_each body xs s = Inr s'" and "P s"
    and "\<And>x t t'. x \<in> set xs \<Longrightarrow> P t \<Longrightarrow> body x t = Inr t' \<Longrightarrow> P t'"
  shows "P s'"
  using assms
proof (induction xs arbitrary: s)
  case Nil
  then show ?case by simp
next
  case (Cons x xs)
  from Cons.prems(1) obtain t where t: "body x s = Inr t" and rest: "for_each body xs t = Inr s'"
    by (auto split: sum.splits)
  have Pt: "P t" by (rule Cons.prems(3) [of x s t]) (simp_all add: Cons.prems(2) t)
  show ?case
  proof (rule Cons.IH [OF rest Pt])
    fix y u u'
    assume "y \<in> set xs" "P u" "body y u = Inr u'"
    then show "P u'" using Cons.prems(3) [of y u u'] by simp
  qed
qed

lemma range_int_iff: "i \<in> set (range_int n) \<longleftrightarrow> 0 \<le> i \<and> i < n"
  by (auto simp: range_int_def image_iff intro: bexI [of _ "nat i"])

lemma range_int_1: "range_int 1 = [0]"
  by (simp add: range_int_def)

lemma range_int_2: "range_int 2 = [0, 1]"
  by (simp add: range_int_def upt_rec)

lemma to_int32_zero: "to_int32 0 = 0"
  by (simp add: to_int32_def)

subsection \<open>\<open>read_amr\<close>: the returned depth\<close>

lemma read_amr_body_effect:
  assumes "read_amr_body add h ngridbound min_level ilevel icpu s = Inr s'"
  shows "(insertions s' = insertions s \<and> max_level s' = max_level s) \<or>
         (min_level \<le> ilevel \<and>
          (\<exists>c. insertions s' = insertions s @ [c] \<and> ins_level c = ilevel - min_level \<and>
               ins_domain c = icpu + 1 \<and>
               max_level s' = (if ins_added c > 0 then max (ilevel - min_level) (max_level s)
                               else max_level s)))"
  using assms
  by (auto simp: read_amr_body_def Let_def split: sum.splits if_splits prod.splits)

lemma Max_insert0_snoc:
  "Max (insert (0::int) (set (ls @ [l]))) = max l (Max (insert 0 (set ls)))"
proof -
  have "insert 0 (set (ls @ [l])) = insert l (insert 0 (set ls))" by auto
  then show ?thesis by simp
qed

lemma read_amr_body_inv:
  assumes "read_amr_body add h ngridbound min_level ilevel icpu s = Inr s'"
    and "amr_inv (nlevelmax h - min_level) s" and "ilevel < nlevelmax h"
  shows "amr_inv (nlevelmax h - min_level) s'"
proof -
  from read_amr_body_effect [OF assms(1)]
  consider "insertions s' = insertions s" "max_level s' = max_level s"
    | c where "min_level \<le> ilevel" "insertions s' = insertions s @ [c]"
        "ins_level c = ilevel - min_level"
        "max_level s' = (if ins_added c > 0 then max (ilevel - min_level) (max_level s)
                               else max_level s)"
    by blast
  then show ?thesis
  proof cases
    case 1
    with assms(2) show ?thesis by (simp add: amr_inv_def)
  next
    case 2
    have levels: "\<forall>c \<in> set (insertions s'). 0 \<le> ins_level c \<and> ins_level c < nlevelmax h - min_level"
      using 2 assms(2,3) by (auto simp: amr_inv_def)
    show ?thesis
    proof (cases "ins_added c > 0")
      case True
      then have "added_levels (insertions s') = added_levels (insertions s) @ [ilevel - min_level]"
        using 2 by (simp add: added_levels_def)
      then have "Max (insert 0 (set (added_levels (insertions s')))) =
                 max (ilevel - min_level) (Max (insert 0 (set (added_levels (insertions s)))))"
        by (simp only: Max_insert0_snoc)
      moreover have "max_level s' = max (ilevel - min_level) (max_level s)"
        using 2 True by simp
      ultimately show ?thesis using assms(2) levels by (simp add: amr_inv_def)
    next
      case False
      then have "added_levels (insertions s') = added_levels (insertions s)"
        using 2 by (simp add: added_levels_def)
      moreover have "max_level s' = max_level s"
        using 2 False by simp
      ultimately show ?thesis using assms(2) levels by (simp add: amr_inv_def)
    qed
  qed
qed

lemma read_amr_loops_inv:
  assumes "read_amr_loops add h ngridbound min_level s = Inr s'"
    and "amr_inv (nlevelmax h - min_level) s"
  shows "amr_inv (nlevelmax h - min_level) s'"
proof (rule for_each_invariant [where P = "amr_inv (nlevelmax h - min_level)",
        OF assms(1) [unfolded read_amr_loops_def] assms(2)])
  fix ilevel t t'
  assume lv: "ilevel \<in> set (range_int (nlevelmax h))"
    and t: "amr_inv (nlevelmax h - min_level) t"
    and run: "for_each (read_amr_body add h ngridbound min_level ilevel)
                (range_int (nboundary h + ncpu h)) t = Inr t'"
  show "amr_inv (nlevelmax h - min_level) t'"
  proof (rule for_each_invariant [where P = "amr_inv (nlevelmax h - min_level)", OF run t])
    fix icpu u u'
    assume "amr_inv (nlevelmax h - min_level) u"
      and "read_amr_body add h ngridbound min_level ilevel icpu u = Inr u'"
    then show "amr_inv (nlevelmax h - min_level) u'"
      using lv by (auto simp: range_int_iff intro: read_amr_body_inv)
  qed
qed

lemma read_amr_inv:
  assumes "read_amr add f h ngridbound min_level oct = Inr (d, s)"
  shows "d = max_level s \<and> amr_inv (nlevelmax h - min_level) s"
proof -
  let ?s0 = "\<lparr>amr_file = f, buffer_size = 0, max_level = 0, oct_handler = oct, insertions = []\<rparr>"
  from assms have run: "read_amr_loops add h ngridbound min_level ?s0 = Inr s" and d: "d = max_level s"
    by (auto simp: read_amr_def split: sum.splits)
  have "amr_inv (nlevelmax h - min_level) ?s0"
    by (simp add: amr_inv_def added_levels_def)
  from read_amr_loops_inv [OF run this] d show ?thesis by simp
qed

text \<open>The sample runs.\<close>

lemma deep_run:
  "read_amr count_add deep_file deep_headers [0, 0] 0 () =
     Inr (1, \<lparr>amr_file = deep_file\<lparr>cursor := 216\<rparr>, buffer_size = 2, max_level = 1,
              oct_handler = (),
              insertions = [\<lparr>ins_domain = 1, ins_level = 1,
                              ins_positions = [(1, 3, 5), (2, 4, 6)], ins_added = 2\<rparr>]\<rparr>)"
  by (simp add: read_amr_def read_amr_loops_def read_amr_body_def grid_count_def index1_def
      index2_def deep_headers_def deep_file_def range_int_2 to_int32_zero amr_block_def
      read_coordinate_def read_vector_def assign_column_def slice_rows_def amr_skip_len_def
      two_to_def count_add_def numeral_nat Let_def)


lemma flat_run:
  "read_amr count_add flat_file flat_headers [] 0 () =
     Inr (0, \<lparr>amr_file = flat_file\<lparr>cursor := 192\<rparr>, buffer_size = 1, max_level = 0,
              oct_handler = (),
              insertions = [\<lparr>ins_domain = 1, ins_level = 0,
                              ins_positions = [(1, 3, 5)], ins_added = 1\<rparr>]\<rparr>)"
  by (simp add: read_amr_def read_amr_loops_def read_amr_body_def grid_count_def index1_def
      index2_def flat_headers_def flat_file_def range_int_1 range_int_2 amr_block_def
      read_coordinate_def read_vector_def assign_column_def slice_rows_def amr_skip_len_def
      two_to_def count_add_def numeral_nat Let_def)

lemma empty_run:
  "read_amr count_add empty_file empty_headers [] 0 () =
     Inr (0, \<lparr>amr_file = empty_file, buffer_size = 0, max_level = 0,
              oct_handler = (), insertions = []\<rparr>)"
  by (simp add: read_amr_def read_amr_loops_def read_amr_body_def grid_count_def index1_def
      index2_def empty_headers_def range_int_1 range_int_2)

text \<open>
  C3. For every input with \<open>min_level \<le> nlevelmax\<close> on which \<open>read_amr\<close> returns, the
  returned depth is at most \<open>nlevelmax - min_level\<close>, and when some insertion added a
  new grid it is the maximum of \<open>level - min_level\<close> over exactly the insertions that
  added one; insertions are made for \<open>level \<ge> min_level\<close> only, so every inserted
  level \<open>level - min_level\<close> is non-negative.
\<close>

theorem read_amr_depth:
  assumes "read_amr add f h ngridbound min_level oct = Inr (d, s)"
    and "min_level \<le> nlevelmax h"
  shows "d \<le> nlevelmax h - min_level \<and>
         (added_levels (insertions s) \<noteq> [] \<longrightarrow> d = Max (set (added_levels (insertions s)))) \<and>
         (\<forall>c \<in> set (insertions s). 0 \<le> ins_level c)"
proof -
  from read_amr_inv [OF assms(1)]
  have d: "d = Max (insert 0 (set (added_levels (insertions s))))"
    and lv: "\<forall>c \<in> set (insertions s). 0 \<le> ins_level c \<and> ins_level c < nlevelmax h - min_level"
    by (simp_all add: amr_inv_def)
  have mem: "\<forall>l \<in> set (added_levels (insertions s)). 0 \<le> l \<and> l < nlevelmax h - min_level"
    using lv by (auto simp: added_levels_def)
  have "d \<le> nlevelmax h - min_level"
    unfolding d using mem assms(2) by (subst Max_le_iff) auto
  moreover have "d = Max (set (added_levels (insertions s)))" if "added_levels (insertions s) \<noteq> []"
  proof -
    have "Max (insert 0 (set (added_levels (insertions s)))) = max 0 (Max (set (added_levels (insertions s))))"
      using that by (simp add: Max_insert)
    moreover have "0 \<le> Max (set (added_levels (insertions s)))"
      using that mem by (simp add: Max_ge_iff) (meson last_in_set)
    ultimately show ?thesis using d by simp
  qed
  ultimately show ?thesis using lv by blast
qed

theorem read_amr_depth_witness:
  "read_amr count_add deep_file deep_headers [0, 0] 0 () \<noteq> Inl IOFault \<and>
   0 \<le> nlevelmax deep_headers \<and>
   fst (projr (read_amr count_add deep_file deep_headers [0, 0] 0 ())) = 1 \<and>
   added_levels (insertions (snd (projr (read_amr count_add deep_file deep_headers [0, 0] 0 ())))) = [1]"
  using read_amr_depth [OF deep_run] deep_run
  by (simp add: deep_headers_def added_levels_def)

text \<open>
  C5. An iteration of \<open>read_amr\<close> whose grid count is zero (the \<open>numbl\<close> entry of a
  real domain, the boundary-count entry of a ghost domain) leaves the whole state as it
  was: the file cursor does not move, no record is skipped or read, and the container
  receives no \<open>add\<close> call.
\<close>

theorem read_amr_empty_block_untouched:
  assumes "(icpu < ncpu h \<and> index2 (numbl h) ilevel icpu = Inr 0) \<or>
           (\<not> icpu < ncpu h \<and>
            index1 ngridbound (icpu - ncpu h + nboundary h * ilevel) = Inr 0)"
  shows "read_amr_body add h ngridbound min_level ilevel icpu s = Inr s"
proof -
  from assms have "grid_count h ngridbound ilevel icpu = Inr 0"
    by (auto simp: grid_count_def to_int32_zero)
  then show ?thesis by (simp add: read_amr_body_def)
qed

theorem read_amr_empty_block_untouched_witness:
  "read_amr_body count_add deep_headers [0, 0] 0 0 0
     \<lparr>amr_file = deep_file, buffer_size = 0, max_level = 0, oct_handler = (), insertions = []\<rparr> =
   Inr \<lparr>amr_file = deep_file, buffer_size = 0, max_level = 0, oct_handler = (), insertions = []\<rparr> \<and>
   read_amr_body count_add deep_headers [0, 0] 0 1 1
     \<lparr>amr_file = deep_file, buffer_size = 0, max_level = 0, oct_handler = (), insertions = []\<rparr> =
   Inr \<lparr>amr_file = deep_file, buffer_size = 0, max_level = 0, oct_handler = (), insertions = []\<rparr> \<and>
   index2 (numbl deep_headers) 0 0 = Inr 0 \<and> 0 < ncpu deep_headers \<and>
   index1 [0, 0 :: int] (1 - ncpu deep_headers + nboundary deep_headers * 1) = Inr 0"
proof -
  have real_domain: "0 < ncpu deep_headers \<and> index2 (numbl deep_headers) 0 0 = Inr 0"
    by (simp add: deep_headers_def index2_def index1_def)
  have ghost_domain: "\<not> 1 < ncpu deep_headers \<and>
      index1 [0, 0 :: int] (1 - ncpu deep_headers + nboundary deep_headers * 1) = Inr 0"
    by (simp add: deep_headers_def index1_def)
  show ?thesis
    using read_amr_empty_block_untouched [of 0 deep_headers 0 "[0, 0]" count_add 0
            "\<lparr>amr_file = deep_file, buffer_size = 0, max_level = 0, oct_handler = (), insertions = []\<rparr>"]
          read_amr_empty_block_untouched [of 1 deep_headers 1 "[0, 0]" count_add 0
            "\<lparr>amr_file = deep_file, buffer_size = 0, max_level = 0, oct_handler = (), insertions = []\<rparr>"]
          real_domain ghost_domain
    by simp
qed

text \<open>
  C10. \<open>read_amr\<close> returns 0 whenever no insertion added a new grid. It also returns 0
  on \<open>flat_file\<close>, where one grid was added at the minimum level, and on
  \<open>empty_file\<close>, where the container received nothing: the value 0 does not tell the
  two apart.
\<close>

theorem read_amr_zero_depth:
  assumes "read_amr add f h ngridbound min_level oct = Inr (d, s)"
  shows "(added_levels (insertions s) = [] \<longrightarrow> d = 0) \<and>
         (\<exists>s1 s2. read_amr count_add flat_file flat_headers [] 0 () = Inr (0, s1) \<and>
                  added_levels (insertions s1) = [0] \<and>
                  read_amr count_add empty_file empty_headers [] 0 () = Inr (0, s2) \<and>
                  insertions s2 = [])"
proof -
  have "added_levels (insertions s) = [] \<longrightarrow> d = 0"
    using read_amr_inv [OF assms] by (simp add: amr_inv_def)
  moreover have "\<exists>s1 s2. read_amr count_add flat_file flat_headers [] 0 () = Inr (0, s1) \<and>
                  added_levels (insertions s1) = [0] \<and>
                  read_amr count_add empty_file empty_headers [] 0 () = Inr (0, s2) \<and>
                  insertions s2 = []"
    by (simp add: flat_run empty_run added_levels_def)
  ultimately show ?thesis by blast
qed

lemma null_run:
  "read_amr null_add deep_file deep_headers [0, 0] 0 () =
     Inr (0, \<lparr>amr_file = deep_file\<lparr>cursor := 216\<rparr>, buffer_size = 2, max_level = 0,
              oct_handler = (),
              insertions = [\<lparr>ins_domain = 1, ins_level = 1,
                              ins_positions = [(1, 3, 5), (2, 4, 6)], ins_added = 0\<rparr>]\<rparr>)"
  by (simp add: read_amr_def read_amr_loops_def read_amr_body_def grid_count_def index1_def
      index2_def deep_headers_def deep_file_def range_int_2 to_int32_zero amr_block_def
      read_coordinate_def read_vector_def assign_column_def slice_rows_def amr_skip_len_def
      two_to_def null_add_def numeral_nat Let_def)

theorem read_amr_zero_depth_witness:
  "fst (projr (read_amr null_add deep_file deep_headers [0, 0] 0 ())) = 0 \<and>
   added_levels (insertions (snd (projr (read_amr null_add deep_file deep_headers [0, 0] 0 ())))) = [] \<and>
   length (insertions (snd (projr (read_amr null_add deep_file deep_headers [0, 0] 0 ())))) = 1"
  using read_amr_zero_depth [OF null_run] null_run
  by (simp add: added_levels_def)

subsection \<open>\<open>read_offset\<close>: records and byte positions\<close>

lemma rec_bytes_pos: "0 < rec_bytes r"
  by (cases r) simp_all

lemma rec_at_nonneg: "rec_at rs p = Some r \<Longrightarrow> 0 \<le> p"
proof (induction rs arbitrary: p)
  case Nil
  then show ?case by simp
next
  case (Cons a rs)
  show ?case
  proof (cases "p = 0")
    case True
    then show ?thesis by simp
  next
    case False
    with Cons.prems have "rec_at rs (p - rec_bytes a) = Some r"
      by (simp split: if_splits)
    from Cons.IH [OF this] rec_bytes_pos [of a] show ?thesis by simp
  qed
qed

lemma read_int_cursor:
  assumes "read_int f = Inr (v, f')"
  shows "cursor f' = cursor f + 12 \<and> records f' = records f \<and> 0 \<le> cursor f \<and>
         - (2 ^ 31) \<le> v \<and> v < 2 ^ 31"
proof -
  from assms obtain w where w: "rec_at (records f) (cursor f) = Some (IntRec w)"
    and v: "v = sint w" and f': "f' = f\<lparr>cursor := cursor f + 12\<rparr>"
    by (auto simp: read_int_def split: option.splits frecord.splits)
  have "- (2 ^ 31) \<le> sint w" "sint w < 2 ^ 31"
    using sint_ge [of w] sint_lt [of w] by simp_all
  with rec_at_nonneg [OF w] v f' show ?thesis by simp
qed

lemma skip_len_exact:
  assumes "0 \<le> n" "0 \<le> r" "n * (8 * r + 8) < 2 ^ 31"
  shows "skip_len n r = n * (8 * r + 8)"
proof -
  have "(word_of_int n :: 32 word) * (word_of_int r * 8 + 8) = word_of_int (n * (8 * r + 8))"
    by (simp add: algebra_simps)
  moreover have "0 \<le> n * (8 * r + 8)" using assms(1,2) by simp
  ultimately show ?thesis
    unfolding skip_len_def using assms(3)
    by (simp only: signed_of_int) (simp add: signed_take_bit_int_eq_self)
qed

lemma upd2_paired:
  assumes "paired a b" and "p \<noteq> - 1 \<longleftrightarrow> n \<noteq> 0"
  shows "paired (upd2 a i j p) (upd2 b i j n)"
proof (cases "nat i < length a")
  case True
  with assms(1) have "list_all2 (\<lambda>p n. p \<noteq> - 1 \<longleftrightarrow> n \<noteq> 0) (a ! nat i) (b ! nat i)"
    by (simp add: paired_def list_all2_nthD)
  with assms(2) have "list_all2 (\<lambda>p n. p \<noteq> - 1 \<longleftrightarrow> n \<noteq> 0) ((a ! nat i)[nat j := p]) ((b ! nat i)[nat j := n])"
    by (rule_tac list_all2_update_cong) simp_all
  with assms(1) show ?thesis
    unfolding paired_def upd2_def by (rule_tac list_all2_update_cong) simp_all
next
  case False
  moreover from assms(1) have "length a = length b"
    by (simp add: paired_def list_all2_lengthD)
  ultimately show ?thesis using assms(1) by (simp add: upd2_def list_update_beyond)
qed

lemma read_offset_body_paired:
  assumes "read_offset_body min_level Nskip ilevel icpu s = Inr s'"
    and "paired (offset_view s) (level_count_view s)"
  shows "paired (offset_view s') (level_count_view s')"
proof -
  from assms(1) obtain a f1 n f2 where r1: "read_int (off_file s) = Inr (a, f1)"
    and r2: "read_int f1 = Inr (n, f2)"
    by (auto simp: read_offset_body_def split: sum.splits prod.splits)
  from read_int_cursor [OF r1] read_int_cursor [OF r2] have "tell f2 \<noteq> - 1"
    by (simp add: tell_def)
  then have "n \<noteq> 0 \<Longrightarrow> paired (upd2 (offset_view s) icpu (ilevel - min_level) (tell f2))
                (upd2 (level_count_view s) icpu (ilevel - min_level) n)"
    using assms(2) by (intro upd2_paired) simp_all
  with assms r1 r2 show ?thesis
    by (auto simp: read_offset_body_def Let_def reader_name_def split: if_splits)
qed


lemma total_bytes_nonneg: "0 \<le> total_bytes rs"
  unfolding total_bytes_def
  by (induction rs) (auto simp: less_imp_le [OF rec_bytes_pos] intro: add_nonneg_nonneg)

lemma total_bytes_Nil: "total_bytes [] = 0"
  by (simp add: total_bytes_def)

lemma total_bytes_append: "total_bytes (xs @ ys) = total_bytes xs + total_bytes ys"
  by (simp add: total_bytes_def)

lemma total_bytes_Cons: "total_bytes (r # rs) = rec_bytes r + total_bytes rs"
  by (simp add: total_bytes_def)

lemma rec_at_append:
  assumes "0 \<le> q"
  shows "rec_at (pre @ rs) (total_bytes pre + q) = rec_at rs q"
  using assms
proof (induction pre)
  case Nil
  then show ?case by (simp add: total_bytes_def)
next
  case (Cons a pre)
  have "0 < rec_bytes a" by (rule rec_bytes_pos)
  moreover have "0 \<le> total_bytes pre" by (rule total_bytes_nonneg)
  ultimately show ?case using Cons by (simp add: total_bytes_Cons)
qed

lemma rec_at_after_prefix: "rec_at (pre @ r # rs) (total_bytes pre) = Some r"
  using rec_at_append [of 0 pre "r # rs"] by simp

lemma total_bytes_payload:
  assumes "list_all (\<lambda>v. int (length v) = c) pl"
  shows "total_bytes (map VecRec pl) = int (length pl) * (8 * c + 8)"
  using assms by (induction pl) (simp_all add: total_bytes_def algebra_simps)

lemma read_int_at:
  assumes "records f = pre @ IntRec w # rest" and "cursor f = total_bytes pre"
  shows "read_int f = Inr (sint w, f\<lparr>cursor := total_bytes (pre @ [IntRec w])\<rparr>)"
  using assms rec_at_after_prefix [of pre "IntRec w" rest]
  by (simp add: read_int_def total_bytes_append total_bytes_Cons total_bytes_def)

lemma read_offset_body_on_block:
  fixes s :: "'v offset_state"
  assumes recs: "records (off_file s) = pre @ block_records b @ post"
    and cur: "cursor (off_file s) = total_bytes pre"
    and wf: "wf_block Nskip b" and small: "payload_below_2G Nskip b"
  shows "read_offset_body min_level Nskip ilevel icpu s =
         (if mislabeled ilevel b
          then Inl AttributeError
          else Inr ((if declared_count b \<noteq> 0 \<and> min_level \<le> ilevel
                     then s\<lparr>offset_view := upd2 (offset_view s) icpu (ilevel - min_level)
                                             (total_bytes pre + 24),
                            level_count_view := upd2 (level_count_view s) icpu (ilevel - min_level)
                                             (sint (declared_count b))\<rparr>
                     else s)
                    \<lparr>off_file := (off_file s)\<lparr>cursor := total_bytes (pre @ block_records b)\<rparr>\<rparr>))"
proof -
  let ?l = "IntRec (declared_level b) :: 'v frecord"
  let ?c = "IntRec (declared_count b) :: 'v frecord"
  let ?f1 = "(off_file s)\<lparr>cursor := total_bytes (pre @ [?l])\<rparr>"
  let ?f2 = "(off_file s)\<lparr>cursor := total_bytes (pre @ [?l, ?c])\<rparr>"
  have r1: "read_int (off_file s) = Inr (sint (declared_level b), ?f1)"
    using recs cur by (intro read_int_at [where rest = "?c # map VecRec (payload b) @ post"])
      (simp_all add: block_records_def)
  have "read_int ?f1 = Inr (sint (declared_count b), ?f1\<lparr>cursor := total_bytes ((pre @ [?l]) @ [?c])\<rparr>)"
    using recs by (intro read_int_at [where rest = "map VecRec (payload b) @ post"])
      (simp_all add: block_records_def)
  then have r2: "read_int ?f1 = Inr (sint (declared_count b), ?f2)" by simp
  have hdr: "total_bytes (pre @ [?l, ?c]) = total_bytes pre + 24"
    by (simp add: total_bytes_append total_bytes_Cons total_bytes_Nil)
  show ?thesis
  proof (cases "declared_count b = 0")
    case True
    with wf have "block_records b = [?l, ?c]"
      by (simp add: wf_block_def block_records_def)
    with True r1 r2 show ?thesis
      by (simp add: read_offset_body_def mislabeled_def)
  next
    case False
    then have nz: "sint (declared_count b) \<noteq> 0"
      by (metis sint_0 signed_word_eqI)
    show ?thesis
    proof (cases "sint (declared_level b) = ilevel + 1")
      case bad: False
      with False nz r1 r2 show ?thesis
        by (simp add: read_offset_body_def mislabeled_def reader_name_def)
    next
      case True
      from wf False have len: "int (length (payload b)) = Nskip"
        and each: "list_all (\<lambda>v. int (length v) = sint (declared_count b)) (payload b)"
        and rng: "0 \<le> Nskip" "0 < sint (declared_count b)"
        by (simp_all add: wf_block_def)
      from small have fits: "Nskip * (8 * sint (declared_count b) + 8) < 2 ^ 31"
        by (simp add: payload_below_2G_def)
      have "skip_len Nskip (sint (declared_count b)) = Nskip * (8 * sint (declared_count b) + 8)"
        using rng fits by (intro skip_len_exact) simp_all
      also have "\<dots> = total_bytes (map VecRec (payload b) :: 'v frecord list)"
        using total_bytes_payload [OF each] len by simp
      finally have adv: "skip_len Nskip (sint (declared_count b)) =
          total_bytes (map VecRec (payload b) :: 'v frecord list)" .
      have "total_bytes (pre @ block_records b) =
            total_bytes (pre @ [?l, ?c]) + total_bytes (map VecRec (payload b) :: 'v frecord list)"
        by (simp add: block_records_def total_bytes_append total_bytes_Cons total_bytes_Nil)
      with True False nz r1 r2 adv hdr show ?thesis
        by (simp add: read_offset_body_def mislabeled_def seek_def tell_def Let_def)
    qed
  qed
qed

lemma read_offset_body_on_block_run:
  fixes s :: "'v offset_state"
  assumes "records (off_file s) = pre @ block_records b @ post"
    and "cursor (off_file s) = total_bytes pre"
    and "wf_block Nskip b" and "payload_below_2G Nskip b"
  shows "if mislabeled ilevel b
         then read_offset_body min_level Nskip ilevel icpu s = Inl AttributeError
         else \<exists>s'. read_offset_body min_level Nskip ilevel icpu s = Inr s' \<and>
                   records (off_file s') = records (off_file s) \<and>
                   cursor (off_file s') = total_bytes (pre @ block_records b)"
  by (simp add: read_offset_body_on_block [OF assms])

lemma cpu_loop_on_blocks:
  fixes s :: "'v offset_state"
  assumes "length cs = length bs"
    and "records (off_file s) = pre @ concat (map block_records bs) @ post"
    and "cursor (off_file s) = total_bytes pre"
    and "list_all (\<lambda>b. wf_block Nskip b \<and> payload_below_2G Nskip b) bs"
  shows "if list_ex (mislabeled ilevel) bs
         then for_each (read_offset_body min_level Nskip ilevel) cs s = Inl AttributeError
         else \<exists>s'. for_each (read_offset_body min_level Nskip ilevel) cs s = Inr s' \<and>
                   records (off_file s') = records (off_file s) \<and>
                   cursor (off_file s') = total_bytes (pre @ concat (map block_records bs))"
  using assms
proof (induction cs bs arbitrary: s pre rule: list_induct2)
  case Nil
  then show ?case by (simp add: total_bytes_Nil)
next
  case (Cons c cs b bs)
  from Cons.prems have recs: "records (off_file s) = pre @ block_records b @ (concat (map block_records bs) @ post)"
    and wfb: "wf_block Nskip b" and smb: "payload_below_2G Nskip b"
    and wfbs: "list_all (\<lambda>b. wf_block Nskip b \<and> payload_below_2G Nskip b) bs"
    by simp_all
  note step = read_offset_body_on_block_run [OF recs Cons.prems(2) wfb smb, of ilevel min_level c]
  show ?case
  proof (cases "mislabeled ilevel b")
    case True
    with step show ?thesis by (auto simp: mislabeled_def)
  next
    case False
    with step obtain t where t: "read_offset_body min_level Nskip ilevel c s = Inr t"
      and tr: "records (off_file t) = records (off_file s)"
      and tc: "cursor (off_file t) = total_bytes (pre @ block_records b)"
      by auto
    have "records (off_file t) = (pre @ block_records b) @ concat (map block_records bs) @ post"
      using tr recs by simp
    from Cons.IH [OF this tc wfbs] False t tr show ?thesis
      by (auto split: if_splits)
  qed
qed


lemma level_loop_on_section:
  fixes s :: "'v offset_state"
  assumes "records (off_file s) = pre @ section_records bss @ post"
    and "cursor (off_file s) = total_bytes pre"
    and "list_all (\<lambda>bs. length bs = length cs \<and>
                     list_all (\<lambda>b. wf_block Nskip b \<and> payload_below_2G Nskip b) bs) bss"
  shows "if list_ex (\<lambda>(l, bs). list_ex (mislabeled (int l)) bs) (enumerate l0 bss)
         then for_each (\<lambda>ilevel. for_each (read_offset_body min_level Nskip ilevel) cs)
                (map int [l0..<l0 + length bss]) s = Inl AttributeError
         else \<exists>s'. for_each (\<lambda>ilevel. for_each (read_offset_body min_level Nskip ilevel) cs)
                       (map int [l0..<l0 + length bss]) s = Inr s' \<and>
                   records (off_file s') = records (off_file s) \<and>
                   cursor (off_file s') = total_bytes (pre @ section_records bss)"
  using assms
proof (induction bss arbitrary: s pre l0)
  case Nil
  then show ?case by (simp add: section_records_def)
next
  case (Cons bs bss)
  have range: "map int [l0..<l0 + length (bs # bss)] = int l0 # map int [Suc l0..<Suc l0 + length bss]"
    using upt_conv_Cons [of l0 "l0 + length (bs # bss)"] by simp
  from Cons.prems have recs: "records (off_file s) =
      pre @ concat (map block_records bs) @ (section_records bss @ post)"
    and len: "length cs = length bs"
    and wfbs: "list_all (\<lambda>b. wf_block Nskip b \<and> payload_below_2G Nskip b) bs"
    and rest: "list_all (\<lambda>bs. length bs = length cs \<and>
                 list_all (\<lambda>b. wf_block Nskip b \<and> payload_below_2G Nskip b) bs) bss"
    by (simp_all add: section_records_def)
  note inner = cpu_loop_on_blocks [OF len recs Cons.prems(2) wfbs, of "int l0" min_level]
  show ?case
  proof (cases "list_ex (mislabeled (int l0)) bs")
    case True
    with inner show ?thesis unfolding range by auto
  next
    case False
    with inner obtain t where t: "for_each (read_offset_body min_level Nskip (int l0)) cs s = Inr t"
      and tr: "records (off_file t) = records (off_file s)"
      and tc: "cursor (off_file t) = total_bytes (pre @ concat (map block_records bs))"
      by auto
    have "records (off_file t) = (pre @ concat (map block_records bs)) @ section_records bss @ post"
      using tr recs by simp
    from Cons.IH [OF this tc rest, of "Suc l0"] False t tr show ?thesis
      unfolding range by (auto simp: section_records_def split: if_splits)
  qed
qed

lemma wf_section_blocks:
  assumes "wf_section Nskip nlevels ndomains bss"
    and "list_all (list_all (payload_below_2G Nskip)) bss"
  shows "list_all (\<lambda>bs. length bs = length (range_int ndomains) \<and>
            list_all (\<lambda>b. wf_block Nskip b \<and> payload_below_2G Nskip b) bs) bss"
  using assms by (auto simp: wf_section_def list_all_iff range_int_def)

text \<open>
  On a well-formed data section whose payloads are below \<open>2^31\<close> bytes, \<open>read_offset\<close>
  stops with a fault exactly when some present block is mislabeled, and the fault is then
  the \<open>AttributeError\<close> of \<open>f.name\<close>, never \<open>YTIllDefinedAMRData\<close>.
\<close>

lemma read_offset_raises_iff:
  fixes bss :: "'v data_block list list"
  assumes wf: "wf_section (if Nskip = - 1 then to_int32 (two_to (ndim h) * nvar) else Nskip)
                 (nlevelmax h) (nboundary h + ncpu h) bss"
    and small: "list_all (list_all (payload_below_2G
                 (if Nskip = - 1 then to_int32 (two_to (ndim h) * nvar) else Nskip))) bss"
    and dims: "min_level \<le> nlevelmax h" "0 \<le> nboundary h + ncpu h"
  shows "((\<exists>e. read_offset \<lparr>records = section_records bss, cursor = 0\<rparr>
                 min_level domain_id nvar h Nskip = Inl e) \<longleftrightarrow> section_mislabeled bss) \<and>
         (\<forall>e. read_offset \<lparr>records = section_records bss, cursor = 0\<rparr>
                 min_level domain_id nvar h Nskip = Inl e \<longrightarrow> e = AttributeError)"
proof -
  let ?N = "if Nskip = - 1 then to_int32 (two_to (ndim h) * nvar) else Nskip"
  let ?f = "\<lparr>records = section_records bss, cursor = 0\<rparr> :: 'v FortranFile"
  let ?s0 = "\<lparr>off_file = ?f,
             offset_view = replicate (nat (nboundary h + ncpu h)) (replicate (nat (nlevelmax h - min_level)) (- 1)),
             level_count_view = replicate (nat (nboundary h + ncpu h)) (replicate (nat (nlevelmax h - min_level)) 0)\<rparr>"
  let ?run = "for_each (\<lambda>ilevel. for_each (read_offset_body min_level ?N ilevel)
                             (range_int (nboundary h + ncpu h)))
                (range_int (nlevelmax h)) ?s0"
  from wf have nl: "int (length bss) = nlevelmax h" by (simp add: wf_section_def)
  then have levels: "range_int (nlevelmax h) = map int [0..<0 + length bss]"
    by (simp add: range_int_def) (metis nat_int)
  have res: "read_offset ?f min_level domain_id nvar h Nskip =
      (case ?run of Inl e \<Rightarrow> Inl e
            | Inr s \<Rightarrow> Inr (offset_view s, level_count_view s, off_file s))"
    using dims by (simp add: read_offset_def Let_def)
  have loop: "if section_mislabeled bss then ?run = Inl AttributeError else \<exists>s'. ?run = Inr s'"
    using level_loop_on_section [of ?s0 "[]" bss "[]" "range_int (nboundary h + ncpu h)" ?N 0 min_level]
      wf_section_blocks [OF wf small]
    unfolding levels section_mislabeled_def
    by (simp add: total_bytes_Nil split: if_splits)
  show ?thesis
  proof (cases "section_mislabeled bss")
    case True
    with loop have "?run = Inl AttributeError" by simp
    with True res show ?thesis by simp
  next
    case False
    with loop obtain s' where "?run = Inr s'" by auto
    with False res show ?thesis by simp
  qed
qed

text \<open>
  When the payload is below \<open>2^31\<close> bytes, an iteration for a level below \<open>min_level\<close>
  on a present block writes to neither table and leaves the cursor just after the
  payload of the block.
\<close>

lemma read_offset_body_below_min_level:
  fixes s :: "'v offset_state"
  assumes "ilevel < min_level"
    and "records (off_file s) = pre @ block_records b @ post"
    and "cursor (off_file s) = total_bytes pre"
    and "wf_block Nskip b" and "payload_below_2G Nskip b" and "declared_count b \<noteq> 0"
    and "sint (declared_level b) = ilevel + 1"
  shows "read_offset_body min_level Nskip ilevel icpu s =
           Inr (s\<lparr>off_file := (off_file s)\<lparr>cursor := total_bytes (pre @ block_records b)\<rparr>\<rparr>)"
  using assms(1,6,7) by (simp add: read_offset_body_on_block [OF assms(2,3,4,5)] mislabeled_def)

lemma read_offset_loops_paired:
  assumes "for_each (\<lambda>ilevel. for_each (read_offset_body min_level Nskip ilevel) cs) ls s = Inr s'"
    and "paired (offset_view s) (level_count_view s)"
  shows "paired (offset_view s') (level_count_view s')"
proof (rule for_each_invariant [where P = "\<lambda>s. paired (offset_view s) (level_count_view s)",
        OF assms(1) assms(2)])
  fix ilevel t t'
  assume t: "paired (offset_view t) (level_count_view t)"
    and run: "for_each (read_offset_body min_level Nskip ilevel) cs t = Inr t'"
  show "paired (offset_view t') (level_count_view t')"
    by (rule for_each_invariant [where P = "\<lambda>s. paired (offset_view s) (level_count_view s)",
          OF run t]) (rule read_offset_body_paired)
qed

lemma paired_replicate: "paired (replicate r (replicate c (- 1))) (replicate r (replicate c 0))"
  by (simp add: paired_def list_all2_conv_all_nth)

text \<open>
  C7. The two tables returned by \<open>read_offset\<close> have the same shape, and at every
  \<open>(domain, level)\<close> entry the offset differs from \<open>- 1\<close> if and only if the record
  count differs from 0.
\<close>

theorem read_offset_tables_paired:
  assumes "read_offset f min_level domain_id nvar h Nskip = Inr (offs, counts, f')"
  shows "length offs = length counts \<and>
         (\<forall>i < length offs. length (offs ! i) = length (counts ! i) \<and>
            (\<forall>j < length (offs ! i). offs ! i ! j \<noteq> - 1 \<longleftrightarrow> counts ! i ! j \<noteq> 0))"
proof -
  from assms obtain s where
    run: "for_each (\<lambda>ilevel. for_each (read_offset_body min_level
              (if Nskip = - 1 then to_int32 (two_to (ndim h) * nvar) else Nskip) ilevel)
                (range_int (nboundary h + ncpu h))) (range_int (nlevelmax h))
            \<lparr>off_file = f,
             offset_view = replicate (nat (nboundary h + ncpu h)) (replicate (nat (nlevelmax h - min_level)) (- 1)),
             level_count_view = replicate (nat (nboundary h + ncpu h)) (replicate (nat (nlevelmax h - min_level)) 0)\<rparr>
          = Inr s"
    and res: "offs = offset_view s" "counts = level_count_view s"
    by (auto simp: read_offset_def Let_def split: if_splits sum.splits)
  have "paired offs counts"
    unfolding res by (rule read_offset_loops_paired [OF run]) (simp add: paired_replicate)
  then show ?thesis
    by (auto simp: paired_def list_all2_conv_all_nth)
qed

subsection \<open>\<open>read_offset\<close>: sample runs\<close>

lemma replicate_2: "replicate 2 x = [x, x]"
  by (simp add: numeral_2_eq_2)

lemma upt_small: "[0..<1] = [0]" "[0..<2] = [0, 1]"
  by (simp_all add: numeral_2_eq_2)

lemma skip_len_2_1: "skip_len 2 1 = 32"
  by (simp add: skip_len_def)

lemma section_records_samples:
  "section_records clean_section =
     [IntRec 1, IntRec 1, VecRec [1], VecRec [2], IntRec 2, IntRec 1, VecRec [1], VecRec [2]]"
  "section_records sparse_section =
     [IntRec 1, IntRec 1, VecRec [1], VecRec [2], IntRec 2, IntRec 0]"
  "section_records mislabeled_section =
     [IntRec 1, IntRec 1, VecRec [1], VecRec [2], IntRec 5, IntRec 1, VecRec [1], VecRec [2]]"
  "section_records zero_mislabel_section =
     [IntRec 1, IntRec 1, VecRec [1], VecRec [2], IntRec 7, IntRec 0]"
  by (simp_all add: section_records_def clean_section_def sparse_section_def
      mislabeled_section_def zero_mislabel_section_def block_records_def present_block_def
      absent_block_def)

lemmas offset_eval =
  read_offset_def read_offset_body_def offset_headers_def section_file_def
  section_records_samples range_int_1 range_int_2 two_to_def to_int32_def read_int_def
  skip_len_2_1 upd2_def seek_def tell_def Let_def replicate_2

lemma clean_run:
  "read_offset (section_file clean_section) 0 0 1 offset_headers (- 1) =
     Inr ([[24, 80]], [[1, 1]], (section_file clean_section)\<lparr>cursor := 112\<rparr>)"
  by (simp add: offset_eval)

lemma clean_run_min_level:
  "read_offset (section_file clean_section) 1 0 1 offset_headers (- 1) =
     Inr ([[80]], [[1]], (section_file clean_section)\<lparr>cursor := 112\<rparr>)"
  by (simp add: offset_eval)

lemma sparse_run:
  "read_offset (section_file sparse_section) 0 0 1 offset_headers (- 1) =
     Inr ([[24, - 1]], [[1, 0]], (section_file sparse_section)\<lparr>cursor := 80\<rparr>)"
  by (simp add: offset_eval)

lemma mislabeled_run:
  "read_offset (section_file mislabeled_section) 0 0 1 offset_headers (- 1) = Inl AttributeError"
  by (simp add: offset_eval reader_name_def)

lemma zero_mislabel_run:
  "read_offset (section_file zero_mislabel_section) 0 0 1 offset_headers (- 1) =
     Inr ([[24, - 1]], [[1, 0]], (section_file zero_mislabel_section)\<lparr>cursor := 80\<rparr>)"
  by (simp add: offset_eval)

lemma wf_samples:
  "wf_section 2 2 1 clean_section"
  "wf_section 2 2 1 mislabeled_section"
  "wf_section 2 2 1 zero_mislabel_section"
  by (simp_all add: wf_section_def wf_block_def clean_section_def mislabeled_section_def
      zero_mislabel_section_def present_block_def absent_block_def)

lemma mislabeled_samples:
  "section_mislabeled mislabeled_section"
  "\<not> section_mislabeled clean_section"
  "\<not> section_mislabeled zero_mislabel_section"
  by (simp_all add: section_mislabeled_def mislabeled_def clean_section_def mislabeled_section_def
      zero_mislabel_section_def present_block_def absent_block_def)

text \<open>
  C2 at a concrete input. The section has two blocks of one domain, both present; the
  second declares level id 5 where the loop level plus one is 2. The claim asks for the
  structural-integrity fault \<open>YTIllDefinedAMRData\<close> and no other; the raise statement
  evaluates \<open>f.name\<close> first, the reader has no such attribute, and \<open>read_offset\<close> ends
  with \<open>AttributeError\<close>.
\<close>

theorem read_offset_mislabel_raises_attribute_error:
  "section_mislabeled mislabeled_section \<and>
   mislabeled_section ! 1 ! 0 = present_block 5 \<and>
   sint (declared_level (present_block 5)) = 5 \<and>
   declared_count (present_block 5) = 1 \<and>
   read_offset (section_file mislabeled_section) 0 0 1 offset_headers (- 1) = Inl AttributeError"
proof (intro conjI)
  show "section_mislabeled mislabeled_section" by (rule mislabeled_samples)
  show "mislabeled_section ! 1 ! 0 = present_block 5" by (simp add: mislabeled_section_def)
  show "sint (declared_level (present_block 5)) = 5" by (simp add: present_block_def)
  show "declared_count (present_block 5) = 1" by (simp add: present_block_def)
qed (rule mislabeled_run)

theorem read_offset_tables_paired_witness:
  "read_offset (section_file sparse_section) 0 0 1 offset_headers (- 1) =
     Inr ([[24, - 1]], [[1, 0]], (section_file sparse_section)\<lparr>cursor := 80\<rparr>) \<and>
   ((24 :: int) \<noteq> - 1 \<longleftrightarrow> (1 :: int) \<noteq> 0) \<and> ((- 1 :: int) \<noteq> - 1 \<longleftrightarrow> (0 :: int) \<noteq> 0)"
  using read_offset_tables_paired [OF sparse_run] sparse_run by simp

text \<open>
  The large block: well formed, correctly labelled, present, \<open>2147484440\<close> bytes long
  with its two header records. The C \<open>int\<close> product of \<open>skip_len\<close> wraps to a negative
  distance.
\<close>

lemma big_block_samples:
  "wf_section 88 2 1 big_section"
  "\<not> section_mislabeled big_section"
  "sint (declared_count big_block) = 3050403"
  "sint (declared_level big_block) = 0 + 1"
  by (simp_all add: wf_section_def wf_block_def section_mislabeled_def mislabeled_def
      big_section_def big_block_def absent_block_def list_all_iff)

lemma big_block_bytes: "total_bytes (block_records big_block) = 24 + 2147484416"
proof -
  have "list_all (\<lambda>v. int (length v) = 3050403) (payload big_block)"
    by (simp add: big_block_def list_all_iff)
  from total_bytes_payload [OF this] show ?thesis
    by (simp add: block_records_def total_bytes_Cons big_block_def)
qed

lemma skip_len_big: "skip_len 88 3050403 = - 2147482880"
  by (simp add: skip_len_def)

lemma big_body:
  "read_offset_body 1 88 0 0
     \<lparr>off_file = section_file big_section, offset_view = [[- 1]], level_count_view = [[0]]\<rparr> =
   Inr \<lparr>off_file = (section_file big_section)\<lparr>cursor := 24 - 2147482880\<rparr>,
        offset_view = [[- 1]], level_count_view = [[0]]\<rparr>"
  by (simp add: read_offset_body_def read_int_def section_file_def section_records_def
      big_section_def block_records_def big_block_def seek_def skip_len_big Let_def)

lemma big_run:
  "read_offset (section_file big_section) 1 0 11 wide_headers (- 1) = Inl IOFault"
  by (simp add: read_offset_def wide_headers_def two_to_def to_int32_def range_int_def upt_small
      replicate_2 Let_def read_offset_body_def read_int_def section_file_def section_records_def
      big_section_def block_records_def big_block_def seek_def skip_len_big absent_block_def)

text \<open>
  C4 at a concrete input. The block of level 0 is below \<open>min_level = 1\<close>, present and
  correctly labelled, and its payload is 88 records of 3050403 values, \<open>2147484416\<close>
  bytes. The iteration leaves both table entries at their sentinels, as the claim says,
  but does not advance the cursor past the payload: \<open>skip_len\<close> multiplies in C \<open>int\<close>,
  the product wraps to \<open>-2147482880\<close>, and the cursor ends before the start of the file
  instead of at byte \<open>24 + 2147484416\<close>. The block of level 1 is then not indexed: the
  next read fails and \<open>read_offset\<close> stops with an I/O fault on a well-formed section.
\<close>

theorem read_offset_skip_wraps_below_min_level:
  "wf_section 88 2 1 big_section \<and> \<not> section_mislabeled big_section \<and>
   sint (declared_count big_block) = 3050403 \<and>
   total_bytes (block_records big_block) = 24 + 2147484416 \<and>
   skip_len 88 3050403 = - 2147482880 \<and>
   read_offset_body 1 88 0 0
     \<lparr>off_file = section_file big_section, offset_view = [[- 1]], level_count_view = [[0]]\<rparr> =
   Inr \<lparr>off_file = (section_file big_section)\<lparr>cursor := 24 - 2147482880\<rparr>,
        offset_view = [[- 1]], level_count_view = [[0]]\<rparr> \<and>
   read_offset (section_file big_section) 1 0 11 wide_headers (- 1) = Inl IOFault"
  by (intro conjI big_block_samples big_block_bytes skip_len_big big_body big_run)

subsection \<open>\<open>fill_hydro\<close>: sample runs\<close>

lemma jump_table_samples:
  "jump_table hydro_fields [''pressure'', ''density''] = Inr [0, 0, 0]"
  "jump_table hydro_fields [''density'', ''pressure''] = Inr [0, 0, 0]"
  "jump_table hydro_fields [''pressure''] = Inr [1, 0]"
  "jump_table hydro_fields [''density''] = Inr [0, 1]"
  by (simp_all add: jump_table_def hydro_fields_def)

lemma skip_len_samples: "skip_len 0 1 = 0" "skip_len 1 1 = 16" "skip_len 2 1 = 32"
  by (simp_all add: skip_len_def)

lemmas hydro_eval =
  fill_hydro_def fill_block_def decode_block_def read_subcell_def read_field_def
  read_vector_inplace_def read_vector_def alias_buffer_def table_max_def shape1_def
  new_buffer_def two_to_def to_int32_def index1_def index2_def seek_def range_int_1
  hydro_file_def Let_def replicate_2 upt_small jump_table_samples skip_len_samples

lemma pressure_alone_run:
  "fill_hydro hydro_file [[24]] [[1]] [0] 1 hydro_fields [''pressure''] =
   Inr \<lparr>hyd_file = hydro_file\<lparr>cursor := 88\<rparr>, buffer = [[[Some 20], [Some 21]]],
        jump_len = 0, reads = [40, 72],
        calls = [FillLevel 0 [''pressure'' \<mapsto> [[Some 20], [Some 21]]]]\<rparr>"
  by (simp add: hydro_eval)


lemma disk_order_run:
  "fill_hydro hydro_file [[24]] [[1]] [0] 1 hydro_fields [''density'', ''pressure''] =
   Inr \<lparr>hyd_file = hydro_file\<lparr>cursor := 88\<rparr>,
        buffer = [[[Some 10], [Some 11]], [[Some 20], [Some 21]]],
        jump_len = 0, reads = [24, 40, 56, 72],
        calls = [FillLevel 0 [''density'' \<mapsto> [[Some 10], [Some 11]],
                              ''pressure'' \<mapsto> [[Some 20], [Some 21]]]]\<rparr>"
  by (simp add: hydro_eval)

lemma swapped_order_run:
  "fill_hydro hydro_file [[24]] [[1]] [0] 1 hydro_fields [''pressure'', ''density''] =
   Inr \<lparr>hyd_file = hydro_file\<lparr>cursor := 88\<rparr>,
        buffer = [[[Some 10], [Some 11]], [[Some 20], [Some 21]]],
        jump_len = 0, reads = [24, 40, 56, 72],
        calls = [FillLevel 0 [''pressure'' \<mapsto> [[Some 10], [Some 11]],
                              ''density'' \<mapsto> [[Some 20], [Some 21]]]]\<rparr>"
  by (simp add: hydro_eval)

text \<open>
  C1 at a concrete input. With \<open>density\<close> before \<open>pressure\<close> on disk, the request
  \<open>[pressure]\<close> and the request \<open>[density, pressure]\<close> deliver the pressure records
  (20, 21) under the name \<open>pressure\<close>, but the permuted request \<open>[pressure, density]\<close>
  delivers the density records (10, 11) under that name: column \<open>j\<close> of the buffer
  holds the \<open>j\<close>-th requested field in on-disk order and is aliased to \<open>fields[j]\<close>.
\<close>

theorem fill_hydro_swapped_request_mislabels:
  "map (\<lambda>c. call_tmp c ''pressure'')
     (calls (projr (fill_hydro hydro_file [[24]] [[1]] [0] 1 hydro_fields [''pressure'']))) =
     [Some [[Some 20], [Some 21]]] \<and>
   map (\<lambda>c. call_tmp c ''pressure'')
     (calls (projr (fill_hydro hydro_file [[24]] [[1]] [0] 1 hydro_fields
                      [''density'', ''pressure'']))) =
     [Some [[Some 20], [Some 21]]] \<and>
   map (\<lambda>c. call_tmp c ''pressure'')
     (calls (projr (fill_hydro hydro_file [[24]] [[1]] [0] 1 hydro_fields
                      [''pressure'', ''density'']))) =
     [Some [[Some 10], [Some 11]]]"
  by (simp add: pressure_alone_run disk_order_run swapped_order_run)

lemma two_domain_tags:
  "map call_tag (calls (projr (fill_hydro hydro_file [[24], [112]] [[1], [1]] [0, 1] 1 hydro_fields
      [''density'']))) = [(0, Some 1), (0, Some 2)]"
  by (simp add: hydro_eval call_tag_def)

subsection \<open>\<open>fill_hydro\<close>: the calls on the container\<close>








subsection \<open>\<open>fill_hydro\<close>: the decode buffer\<close>


lemma read_vector_inplace_fits:
  assumes "buffer_shape rows subcells nfields buf" and "i < subcells" and "j < nfields"
    and "read_vector f = Inr (v, f')" and "length v \<le> rows"
  shows "\<exists>buf'. read_vector_inplace f buf i j = Inr (buf', f') \<and>
                buffer_shape rows subcells nfields buf'"
proof -
  from assms(1,2,3) have j: "j < length buf" and i: "i < length (buf ! j)"
    and col: "length (buf ! j ! i) = rows"
    by (auto simp: buffer_shape_def list_all_length)
  let ?buf' = "buf[j := (buf ! j)[i := map Some v @ drop (length v) (buf ! j ! i)]]"
  have "read_vector_inplace f buf i j = Inr (?buf', f')"
    using assms(4,5) j i col by (simp add: read_vector_inplace_def)
  moreover have "buffer_shape rows subcells nfields ?buf'"
    using assms(1,5) j i col
    by (auto simp: buffer_shape_def list_all_length nth_list_update)
  ultimately show ?thesis by blast
qed

































subsection \<open>\<open>fill_hydro\<close>: the seek plan against the naive plan\<close>

lemma walk_fields_length:
  "length (walk_fields afs flds a) = Suc (length (filter (\<lambda>f. f \<in> set flds) afs))"
  by (induction afs arbitrary: a) simp_all

lemma walk_fields_not_Nil: "walk_fields afs flds a \<noteq> []"
  by (induction afs arbitrary: a) simp_all

lemma walk_fields_none:
  "\<not> requested_in flds afs \<Longrightarrow> walk_fields afs flds a = [a + int (length afs)]"
  by (induction afs arbitrary: a) (simp_all add: requested_in_def)

lemma walk_fields_hd:
  "a \<le> hd (walk_fields afs flds a) \<and> hd (walk_fields afs flds a) \<le> a + int (length afs)"
proof (induction afs arbitrary: a)
  case Nil
  then show ?case by simp
next
  case (Cons f afs)
  from Cons [of "a + 1"] show ?case by auto
qed

lemma walk_fields_sum:
  "sum_list (walk_fields afs flds a) = a + int (length (filter (\<lambda>f. f \<notin> set flds) afs))"
  by (induction afs arbitrary: a) simp_all

lemma walk_fields_nonneg:
  "0 \<le> a \<Longrightarrow> \<forall>x \<in> set (walk_fields afs flds a). 0 \<le> x"
proof (induction afs arbitrary: a)
  case Nil
  then show ?case by simp
next
  case (Cons f afs)
  from Cons.IH [of 0] Cons.IH [of "a + 1"] Cons.prems show ?case by auto
qed

lemma member_le_sum_list_int:
  fixes xs :: "int list"
  assumes "\<forall>x \<in> set xs. 0 \<le> x" and "y \<in> set xs"
  shows "y \<le> sum_list xs"
  using assms
proof (induction xs)
  case Nil
  then show ?case by simp
next
  case (Cons x xs)
  have "0 \<le> sum_list xs" using Cons.prems(1) by (intro sum_list_nonneg) simp
  with Cons show ?case by auto
qed

lemma hd_last_le_sum:
  fixes xs :: "int list"
  assumes "\<forall>x \<in> set xs. 0 \<le> x" and "2 \<le> length xs"
  shows "hd xs + last xs \<le> sum_list xs"
proof (cases xs)
  case Nil
  with assms(2) show ?thesis by simp
next
  case (Cons x zs)
  with assms(2) have nz: "zs \<noteq> []" by auto
  then have "last zs \<in> set zs" by simp
  moreover have "\<forall>z \<in> set zs. 0 \<le> z" using assms(1) Cons by simp
  ultimately have "last zs \<le> sum_list zs" by (intro member_le_sum_list_int)
  with Cons nz show ?thesis by simp
qed

lemma walk_fields_hd_last:
  assumes "requested_in flds afs"
  shows "0 \<le> hd (walk_fields afs flds 0) + last (walk_fields afs flds 0) \<and>
         hd (walk_fields afs flds 0) + last (walk_fields afs flds 0) \<le> int (length afs)"
proof -
  let ?w = "walk_fields afs flds 0"
  have nn: "\<forall>x \<in> set ?w. 0 \<le> x" by (rule walk_fields_nonneg) simp
  from assms have "filter (\<lambda>f. f \<in> set flds) afs \<noteq> []"
    by (auto simp: requested_in_def list_ex_iff filter_empty_conv)
  then have len: "2 \<le> length ?w"
    by (cases "filter (\<lambda>f. f \<in> set flds) afs") (simp_all add: walk_fields_length)
  from hd_last_le_sum [OF nn len] have "hd ?w + last ?w \<le> int (length (filter (\<lambda>f. f \<notin> set flds) afs))"
    by (simp add: walk_fields_sum)
  also have "\<dots> \<le> int (length afs)" by simp
  finally have up: "hd ?w + last ?w \<le> int (length afs)" .
  have "hd ?w \<in> set ?w" "last ?w \<in> set ?w"
    using walk_fields_not_Nil by simp_all
  with nn have "0 \<le> hd ?w" "0 \<le> last ?w" by blast+
  with up show ?thesis by simp
qed

lemma read_field_sim:
  fixes s t :: "'v hydro_state"
  assumes rel: "decode_rel reclen a s t"
    and lo: "0 \<le> jump_len s + a" and hi: "jump_len s + a \<le> B"
    and lin: "\<And>x. 0 \<le> x \<Longrightarrow> x \<le> B \<Longrightarrow> skip_len x nc = reclen * x"
    and req: "field \<in> set flds"
  shows "rel_sum (=) (\<lambda>s' jt. decode_rel reclen 0 s' (snd jt) \<and> fst jt = Suc j \<and> jump_len s' = 0)
           (read_field nc i j a s) (naive_field flds nc i field (j, t))"
proof -
  let ?jl = "jump_len s + a"
  let ?s1 = "if ?jl > 0
             then s\<lparr>hyd_file := seek (hyd_file s) (skip_len ?jl nc) 1, jump_len := 0\<rparr>
             else s\<lparr>jump_len := ?jl\<rparr>"
  have f1: "hyd_file ?s1 = hyd_file t"
    using rel lo hi lin [of ?jl] by (auto simp: decode_rel_def seek_def)
  have j1: "jump_len ?s1 = 0" using lo by auto
  have b1: "buffer ?s1 = buffer t" "reads ?s1 = reads t"
    using rel by (auto simp: decode_rel_def)
  have opt: "read_field nc i j a s =
      (case read_vector_inplace (hyd_file t) (buffer t) i j of
         Inl e \<Rightarrow> Inl e
       | Inr (buf, f') \<Rightarrow>
           Inr (?s1\<lparr>hyd_file := f', buffer := buf, reads := reads t @ [cursor (hyd_file t)]\<rparr>))"
    unfolding read_field_def Let_def f1 [symmetric] b1 [symmetric] by simp
  show ?thesis
  proof (cases "read_vector_inplace (hyd_file t) (buffer t) i j")
    case (Inl e)
    with opt req show ?thesis by (simp add: naive_field_def)
  next
    case (Inr r)
    then obtain buf f' where r: "r = (buf, f')" by (cases r)
    with Inr opt req j1 show ?thesis
      by (simp add: naive_field_def decode_rel_def)
  qed
qed


lemma walk_sim:
  fixes s t :: "'v hydro_state"
  assumes "decode_rel reclen a s t" and "0 \<le> a" and "int (length afs) \<le> B"
    and "requested_in flds afs \<Longrightarrow>
           0 \<le> jump_len s + hd (walk_fields afs flds a) \<and>
           jump_len s + hd (walk_fields afs flds a) \<le> B"
    and rl: "reclen = 8 * nc + 8"
    and lin: "\<And>x. 0 \<le> x \<Longrightarrow> x \<le> B \<Longrightarrow> skip_len x nc = reclen * x"
  shows "rel_sum (=)
           (\<lambda>s' jt. decode_rel reclen 0 s' (snd jt) \<and>
              jump_len s' = (if requested_in flds afs then last (walk_fields afs flds a)
                             else jump_len s + last (walk_fields afs flds a)))
           (table_walk nc i j (walk_fields afs flds a) s)
           (for_each (naive_field flds nc i) afs (j, t))"
  using assms(1,2,3,4)
proof (induction afs arbitrary: a j s t)
  case Nil
  then show ?case
    by (simp add: decode_rel_def requested_in_def)
next
  case (Cons f afs)
  show ?case
  proof (cases "f \<in> set flds")
    case False
    let ?t1 = "t\<lparr>hyd_file := seek (hyd_file t) reclen 1\<rparr>"
    have rel1: "decode_rel reclen (a + 1) s ?t1"
      using Cons.prems(1) by (simp add: decode_rel_def seek_def algebra_simps)
    have req: "requested_in flds (f # afs) = requested_in flds afs"
      using False by (simp add: requested_in_def)
    have walk: "walk_fields (f # afs) flds a = walk_fields afs flds (a + 1)"
      using False by simp
    have first: "requested_in flds afs \<Longrightarrow>
           0 \<le> jump_len s + hd (walk_fields afs flds (a + 1)) \<and>
           jump_len s + hd (walk_fields afs flds (a + 1)) \<le> B"
      using Cons.prems(4) req walk by simp
    have naive: "for_each (naive_field flds nc i) (f # afs) (j, t) =
                 for_each (naive_field flds nc i) afs (j, ?t1)"
      using False rl by (simp add: naive_field_def)
    have a1: "0 \<le> a + 1" and len: "int (length afs) \<le> B"
      using Cons.prems(2,3) by simp_all
    from Cons.IH [OF rel1 a1 len first, of j]
    show ?thesis unfolding naive walk req .
  next
    case True
    have req: "requested_in flds (f # afs)"
      using True by (simp add: requested_in_def)
    obtain g rest where w0: "walk_fields afs flds 0 = g # rest"
      using walk_fields_not_Nil [of afs flds 0] by (cases "walk_fields afs flds 0") auto
    have walk: "walk_fields (f # afs) flds a = a # g # rest"
      using True w0 by simp
    from Cons.prems(4) [OF req] have lo: "0 \<le> jump_len s + a" and hi: "jump_len s + a \<le> B"
      using walk by simp_all
    note step = read_field_sim [OF Cons.prems(1) lo hi lin True, where i = i and j = j]
    have len: "int (length afs) \<le> B" using Cons.prems(3) by simp
    show ?thesis
    proof (cases "read_field nc i j a s")
      case (Inl e)
      with step have "naive_field flds nc i f (j, t) = Inl e"
        by (cases "naive_field flds nc i f (j, t)") simp_all
      with Inl walk show ?thesis by simp
    next
      case (Inr s1)
      with step obtain t1 where n1: "naive_field flds nc i f (j, t) = Inr (Suc j, t1)"
        and rel1: "decode_rel reclen 0 s1 t1" and j0: "jump_len s1 = 0"
        by (cases "naive_field flds nc i f (j, t)") auto
      have first: "requested_in flds afs \<Longrightarrow>
           0 \<le> jump_len s1 + hd (walk_fields afs flds 0) \<and>
           jump_len s1 + hd (walk_fields afs flds 0) \<le> B"
        using walk_fields_hd [of 0 afs flds] len j0 by simp
      from Cons.IH [OF rel1 _ len first, of "Suc j"]
      have "rel_sum (=)
           (\<lambda>s' jt. decode_rel reclen 0 s' (snd jt) \<and>
              jump_len s' = (if requested_in flds afs then last (walk_fields afs flds 0)
                             else jump_len s1 + last (walk_fields afs flds 0)))
           (table_walk nc i (Suc j) (walk_fields afs flds 0) s1)
           (for_each (naive_field flds nc i) afs (Suc j, t1))"
        by simp
      then have "rel_sum (=)
           (\<lambda>s' jt. decode_rel reclen 0 s' (snd jt) \<and> jump_len s' = last (walk_fields afs flds 0))
           (table_walk nc i (Suc j) (g # rest) s1)
           (for_each (naive_field flds nc i) afs (Suc j, t1))"
        using j0 w0 by (simp cong: if_cong)
      then show ?thesis
        using Inr n1 req walk w0 by simp
    qed
  qed
qed

lemma read_subcell_table_walk_from:
  fixes s :: "'v hydro_state"
  assumes "length jumps = Suc n" and "k \<le> n"
  shows "(case for_each (\<lambda>j. read_field nc i j (jumps ! j)) [k..<n] s of
            Inl e \<Rightarrow> Inl e
          | Inr s' \<Rightarrow> Inr (s'\<lparr>jump_len := jump_len s' + jumps ! n\<rparr>)) =
         table_walk nc i k (drop k jumps) s"
  using assms(2)
proof (induction "n - k" arbitrary: k s)
  case 0
  then have k: "k = n" by simp
  have "drop n jumps = [jumps ! n]"
    using assms(1) by (metis Cons_nth_drop_Suc drop_all lessI order_refl)
  with k show ?case by simp
next
  case (Suc m)
  then have lt: "k < n" by simp
  have range: "[k..<n] = k # [Suc k..<n]" using lt by (simp add: upt_conv_Cons)
  have d1: "drop k jumps = jumps ! k # drop (Suc k) jumps"
    using lt assms(1) by (simp add: Cons_nth_drop_Suc)
  obtain g rest where d2: "drop (Suc k) jumps = g # rest"
    using lt assms(1) by (cases "drop (Suc k) jumps") auto
  have IH: "(case for_each (\<lambda>j. read_field nc i j (jumps ! j)) [Suc k..<n] s' of
            Inl e \<Rightarrow> Inl e
          | Inr s'' \<Rightarrow> Inr (s''\<lparr>jump_len := jump_len s'' + jumps ! n\<rparr>)) =
         table_walk nc i (Suc k) (g # rest) s'"
    for s' :: "'v hydro_state"
  proof -
    have m: "m = n - Suc k" using Suc.hyps(2) by simp
    have le: "Suc k \<le> n" using lt by simp
    from Suc.hyps(1) [OF m le, of s'] d2 show ?thesis by simp
  qed
  show ?case
    unfolding range d1 d2 using IH
    by (cases "read_field nc i k (jumps ! k) s") simp_all
qed

lemma read_subcell_table_walk:
  assumes "length jumps = Suc n"
  shows "read_subcell jumps n nc i s = table_walk nc i 0 jumps s"
  using read_subcell_table_walk_from [OF assms, of 0 nc i s]
  by (simp add: read_subcell_def)

text \<open>What the sub-cell loop keeps: after a sub-cell the two plans are related, and the
  skip owed before the first requested field of the next sub-cell is within bounds.\<close>

lemma subcell_sim:
  fixes s t :: "'v hydro_state"
  assumes jumps: "jumps = walk_fields all_fields flds 0" and n: "length jumps = Suc n"
    and rel: "decode_rel reclen 0 s t"
    and inv: "requested_in flds all_fields \<Longrightarrow>
                0 \<le> jump_len s + hd jumps \<and> jump_len s + hd jumps \<le> int (length all_fields)"
    and rl: "reclen = 8 * nc + 8"
    and lin: "\<And>x. 0 \<le> x \<Longrightarrow> x \<le> int (length all_fields) \<Longrightarrow> skip_len x nc = reclen * x"
  shows "rel_sum (=)
           (\<lambda>s' t'. decode_rel reclen 0 s' t' \<and>
              (requested_in flds all_fields \<longrightarrow>
                 0 \<le> jump_len s' + hd jumps \<and> jump_len s' + hd jumps \<le> int (length all_fields)))
           (read_subcell jumps n nc i s) (naive_subcell all_fields flds nc i t)"
proof -
  have first: "requested_in flds all_fields \<Longrightarrow>
           0 \<le> jump_len s + hd (walk_fields all_fields flds 0) \<and>
           jump_len s + hd (walk_fields all_fields flds 0) \<le> int (length all_fields)"
    using inv jumps by simp
  note sim = walk_sim [OF rel _ _ first rl lin, of i 0, simplified]
  show ?thesis
  proof (cases "table_walk nc i 0 jumps s")
    case (Inl e)
    with sim jumps have "for_each (naive_field flds nc i) all_fields (0, t) = Inl e"
      by (cases "for_each (naive_field flds nc i) all_fields (0, t)") simp_all
    with Inl show ?thesis
      by (simp add: read_subcell_table_walk [OF n] naive_subcell_def)
  next
    case (Inr s')
    with sim jumps obtain j' t' where
      nv: "for_each (naive_field flds nc i) all_fields (0, t) = Inr (j', t')"
      and rel': "decode_rel reclen 0 s' t'"
      and jl: "jump_len s' = (if requested_in flds all_fields then last jumps
                              else jump_len s + last jumps)"
      by (cases "for_each (naive_field flds nc i) all_fields (0, t)") auto
    have "0 \<le> jump_len s' + hd jumps \<and> jump_len s' + hd jumps \<le> int (length all_fields)"
      if "requested_in flds all_fields"
      using walk_fields_hd_last [OF that] jl that jumps by (simp add: add.commute)
    with Inr nv rel' show ?thesis
      by (simp add: read_subcell_table_walk [OF n] naive_subcell_def)
  qed
qed

lemma for_each_sim:
  assumes "R s t"
    and "\<And>x u v. x \<in> set xs \<Longrightarrow> R u v \<Longrightarrow> rel_sum (=) R (f x u) (g x v)"
  shows "rel_sum (=) R (for_each f xs s) (for_each g xs t)"
  using assms
proof (induction xs arbitrary: s t)
  case Nil
  then show ?case by simp
next
  case (Cons x xs)
  from Cons.prems(2) [of x s t] Cons.prems(1)
  have step: "rel_sum (=) R (f x s) (g x t)" by simp
  show ?case
  proof (cases "f x s")
    case (Inl e)
    with step have "g x t = Inl e" by (cases "g x t") simp_all
    with Inl show ?thesis by simp
  next
    case (Inr u)
    with step obtain v where v: "g x t = Inr v" and uv: "R u v"
      by (cases "g x t") simp_all
    have "rel_sum (=) R (for_each f xs u) (for_each g xs v)"
      by (rule Cons.IH [OF uv]) (use Cons.prems(2) in simp)
    with Inr v show ?thesis by simp
  qed
qed

text \<open>The catalogue invariant of the spec gives the count that the refinement asks for.\<close>

lemma requested_subset_count:
  assumes "distinct all_fields" and "distinct flds" and "set flds \<subseteq> set all_fields"
  shows "length (filter (\<lambda>f. f \<in> set flds) all_fields) = length flds"
proof -
  have "set (filter (\<lambda>f. f \<in> set flds) all_fields) = set flds"
    using assms(3) by auto
  moreover have "distinct (filter (\<lambda>f. f \<in> set flds) all_fields)"
    using assms(1) by simp
  ultimately show ?thesis
    using assms(2) by (metis distinct_card)
qed

lemma jump_table_exact:
  assumes "jump_table all_fields flds = Inr jumps"
    and "length (filter (\<lambda>f. f \<in> set flds) all_fields) = length flds"
  shows "jumps = walk_fields all_fields flds 0 \<and> length jumps = Suc (length flds)"
  using assms by (auto simp: jump_table_def Let_def walk_fields_length split: if_splits)

lemma to_int32_id: "- (2 ^ 31) \<le> x \<Longrightarrow> x < 2 ^ 31 \<Longrightarrow> to_int32 x = x"
  unfolding to_int32_def by (simp only: signed_of_int) (simp add: signed_take_bit_int_eq_self)

text \<open>
  With the requested names all in the catalogue (as many catalogue entries are
  requested as there are requested names), a record count that is not negative and a
  sub-cell of fewer than \<open>2^31\<close> bytes, the seeks and reads of \<open>fill_hydro\<close> on one
  block (the jump table, the single initial seek to \<open>offset + skip_len(jumps[0], nc)\<close>
  and the conditional relative seeks) and the naive plan (rewind to the start of the
  block, skip every unrequested record one by one) end in the same fault, or read at the
  same byte positions, in the same order, into the same buffer cells.
\<close>

lemma decode_block_refines_naive:
  fixes s :: "'v hydro_state"
  assumes table: "jump_table all_fields flds = Inr jumps"
    and subset: "length (filter (\<lambda>f. f \<in> set flds) all_fields) = length flds"
    and nc: "0 \<le> nc"
    and fits: "int (length all_fields) * (8 * nc + 8) < 2 ^ 31"
  shows "same_decode (decode_block jumps (length flds) twotondim offset nc s)
           (naive_decode_block all_fields flds twotondim offset nc s)"
proof -
  let ?B = "int (length all_fields)"
  let ?L = "8 * nc + 8"
  note both = jump_table_exact [OF table subset]
  have jumps: "jumps = walk_fields all_fields flds 0" by (rule both [THEN conjunct1])
  have len: "length jumps = Suc (length flds)" by (rule both [THEN conjunct2])
  have lin: "skip_len x nc = ?L * x" if "0 \<le> x" "x \<le> ?B" for x
  proof -
    have "x * ?L \<le> ?B * ?L" using that nc by (intro mult_right_mono) simp_all
    with fits have "x * ?L < 2 ^ 31" by simp
    from skip_len_exact [OF that(1) nc this] show ?thesis by (simp add: mult.commute)
  qed
  have hd0: "jumps ! 0 = hd jumps" using len by (cases jumps) simp_all
  have hd_bounds: "0 \<le> hd jumps" "hd jumps \<le> ?B"
    using walk_fields_hd [of 0 all_fields flds] jumps by simp_all
  have "?B * 1 \<le> ?B * ?L" using nc by (intro mult_left_mono) simp_all
  with fits have "?B < 2 ^ 31" by simp
  with hd_bounds have first: "to_int32 (jumps ! 0) = hd jumps"
    unfolding hd0 by (intro to_int32_id) simp_all
  let ?s0 = "s\<lparr>hyd_file := seek (hyd_file s) (offset + skip_len (hd jumps) nc) 0,
               jump_len := - hd jumps\<rparr>"
  let ?t0 = "s\<lparr>hyd_file := seek (hyd_file s) offset 0\<rparr>"
  let ?R = "\<lambda>s' t'. decode_rel ?L 0 s' t' \<and>
              (requested_in flds all_fields \<longrightarrow>
                 0 \<le> jump_len s' + hd jumps \<and> jump_len s' + hd jumps \<le> ?B)"
  have init: "?R ?s0 ?t0"
    using lin [OF hd_bounds] by (simp add: decode_rel_def seek_def)
  have "rel_sum (=) ?R
          (for_each (read_subcell jumps (length flds) nc) [0..<nat twotondim] ?s0)
          (for_each (naive_subcell all_fields flds nc) [0..<nat twotondim] ?t0)"
  proof (rule for_each_sim [where R = ?R, OF init])
    fix i and u v :: "'v hydro_state"
    assume "?R u v"
    then show "rel_sum (=) ?R (read_subcell jumps (length flds) nc i u)
                 (naive_subcell all_fields flds nc i v)"
      by (intro subcell_sim [OF jumps len _ _ refl lin]) simp_all
  qed
  then show ?thesis
    unfolding decode_block_def naive_decode_block_def Let_def first same_decode_def
    by (auto simp: decode_rel_def split: sum.splits)
qed

lemma pressure_decode:
  "decode_block [1, 0] 1 2 24 1 hydro_start =
     Inr \<lparr>hyd_file = hydro_file\<lparr>cursor := 88\<rparr>, buffer = [[[Some 20], [Some 21]]],
          jump_len = 0, reads = [40, 72], calls = []\<rparr>"
  by (simp add: hydro_start_def hydro_eval)

lemma pressure_naive_decode:
  "naive_decode_block hydro_fields [''pressure''] 2 24 1 hydro_start =
     Inr \<lparr>hyd_file = hydro_file\<lparr>cursor := 88\<rparr>, buffer = [[[Some 20], [Some 21]]],
          jump_len = 0, reads = [40, 72], calls = []\<rparr>"
  by (simp add: hydro_start_def naive_decode_block_def naive_subcell_def naive_field_def
      hydro_fields_def hydro_eval)

lemma density_decode:
  "decode_block [0, 1] 1 2 24 1 hydro_start =
     Inr \<lparr>hyd_file = hydro_file\<lparr>cursor := 72\<rparr>, buffer = [[[Some 10], [Some 11]]],
          jump_len = 1, reads = [24, 56], calls = []\<rparr>"
  by (simp add: hydro_start_def hydro_eval)

lemma density_naive_decode:
  "naive_decode_block hydro_fields [''density''] 2 24 1 hydro_start =
     Inr \<lparr>hyd_file = hydro_file\<lparr>cursor := 88\<rparr>, buffer = [[[Some 10], [Some 11]]],
          jump_len = 0, reads = [24, 56], calls = []\<rparr>"
  by (simp add: hydro_start_def naive_decode_block_def naive_subcell_def naive_field_def
      hydro_fields_def hydro_eval)

lemma decode_block_refines_naive_sample:
  "jump_table hydro_fields [''pressure''] = Inr [1, 0] \<and>
   length (filter (\<lambda>f. f \<in> set [''pressure'']) hydro_fields) = length [''pressure''] \<and>
   (0 :: int) \<le> 1 \<and> int (length hydro_fields) * (8 * 1 + 8) < 2 ^ 31 \<and>
   same_decode (decode_block [1, 0] (length [''pressure'']) 2 24 1 hydro_start)
     (naive_decode_block hydro_fields [''pressure''] 2 24 1 hydro_start) \<and>
   reads (projr (decode_block [1, 0] 1 2 24 1 hydro_start)) = [40, 72] \<and>
   reads (projr (naive_decode_block hydro_fields [''pressure''] 2 24 1 hydro_start)) = [40, 72]"
proof -
  have table: "jump_table hydro_fields [''pressure''] = Inr [1, 0]"
    by (rule jump_table_samples)
  have subset: "length (filter (\<lambda>f. f \<in> set [''pressure'']) hydro_fields) = length [''pressure'']"
    by (simp add: hydro_fields_def)
  have nc: "(0 :: int) \<le> 1" by simp
  have fits: "int (length hydro_fields) * (8 * 1 + 8) < 2 ^ 31"
    by (simp add: hydro_fields_def)
  from decode_block_refines_naive [OF table subset nc fits, of 2 24 hydro_start]
  show ?thesis
    using table subset fits
    by (auto simp: pressure_naive_decode same_decode_def split: sum.splits)
qed

text \<open>
  The large block. The requested field is the last of eleven; its record of the first
  sub-cell begins at byte \<open>10 * 214748368 = 2147483680\<close> of the block, that of the second
  sub-cell at byte \<open>21 * 214748368 = 4509715728\<close>.
\<close>

lemma rec_at_negative: "p < 0 \<Longrightarrow> rec_at rs p = None"
  using rec_at_nonneg [of rs p] by (cases "rec_at rs p") auto

lemma rec_at_step: "0 \<le> q \<Longrightarrow> rec_at (r # rs) (rec_bytes r + q) = rec_at rs q"
  using rec_bytes_pos [of r] by simp

lemma rec_at_replicate: "k < n \<Longrightarrow> rec_at (replicate n r) (int k * rec_bytes r) = Some r"
proof (induction n arbitrary: k)
  case 0
  then show ?case by simp
next
  case (Suc n)
  show ?case
  proof (cases k)
    case 0
    then show ?thesis by simp
  next
    case (Suc m)
    with Suc.prems have "m < n" by simp
    let ?q = "int m * rec_bytes r"
    have q: "0 \<le> ?q" using rec_bytes_pos [of r] by simp
    have "int k * rec_bytes r = rec_bytes r + ?q" using Suc by (simp add: algebra_simps)
    moreover have "rec_at (r # replicate n r) (rec_bytes r + ?q) = rec_at (replicate n r) ?q"
      by (rule rec_at_step [OF q])
    ultimately show ?thesis using Suc.IH [OF \<open>m < n\<close>] by simp
  qed
qed

lemma wide_record_bytes: "rec_bytes wide_record = 214748368"
  by (simp add: wide_record_def)

lemma wide_rec_at:
  "rec_at (replicate 22 wide_record) 2147483680 = Some (VecRec (replicate 26843545 0))"
  "rec_at (replicate 22 wide_record) 4509715728 = Some (VecRec (replicate 26843545 0))"
  using rec_at_replicate [of 10 22 wide_record] rec_at_replicate [of 21 22 wide_record]
  by (simp_all add: wide_record_bytes) (simp_all add: wide_record_def)

lemma wide_on_disk:
  "rec_at (records wide_file) (10 * (8 * 26843545 + 8)) = Some wide_record"
  using wide_rec_at(1) by (simp add: wide_file_def wide_record_def)

lemma wide_jumps: "jump_table wide_fields [''scalar_05''] = Inr [10, 0]"
  by (simp add: jump_table_def wide_fields_def Let_def)

lemma skip_len_wide: "skip_len 10 26843545 = - 2147483616"
  by (simp add: skip_len_def)

lemma wide_decode:
  "decode_block [10, 0] 1 2 0 26843545 wide_start = Inl IOFault"
  by (simp add: decode_block_def to_int32_def skip_len_wide seek_def wide_start_def wide_file_def
      upt_small numeral_2_eq_2 read_subcell_def read_field_def read_vector_inplace_def
      read_vector_def rec_at_negative Let_def)

lemma wide_naive:
  "\<exists>t. naive_decode_block wide_fields [''scalar_05''] 2 0 26843545 wide_start = Inr t \<and>
       reads t = [2147483680, 4509715728]"
  by (simp add: naive_decode_block_def naive_subcell_def naive_field_def wide_fields_def
      wide_start_def wide_file_def seek_def upt_small numeral_2_eq_2 read_vector_inplace_def
      read_vector_def wide_rec_at new_buffer_def Let_def)

lemma wide_plans_differ:
  "\<not> same_decode (decode_block [10, 0] 1 2 0 26843545 wide_start)
       (naive_decode_block wide_fields [''scalar_05''] 2 0 26843545 wide_start)"
proof -
  from wide_naive obtain t
    where t: "naive_decode_block wide_fields [''scalar_05''] 2 0 26843545 wide_start = Inr t"
    by blast
  show ?thesis unfolding wide_decode t same_decode_def by simp
qed

lemma wide_fill:
  "fill_hydro wide_file [[0]] [[26843545]] [0] 1 wide_fields [''scalar_05''] = Inl IOFault"
  by (simp add: fill_hydro_def wide_jumps table_max_def two_to_def shape1_def range_int_def
      fill_block_def index2_def index1_def
      decode_block_def to_int32_def skip_len_wide seek_def wide_file_def
      upt_small numeral_2_eq_2 read_subcell_def read_field_def read_vector_inplace_def
      read_vector_def rec_at_negative Let_def)

text \<open>
  C6 at a concrete input. One block of 26843545 cells, eleven fields on disk, the last
  one requested. The jump table is \<open>[10, 0]\<close> and the record of the requested field of
  the first sub-cell occupies byte \<open>2147483680\<close>, where the naive plan reads it. The
  single initial seek of \<open>fill_hydro\<close> goes to \<open>offset + skip_len(10, nc)\<close>, the C \<open>int\<close>
  product of \<open>skip_len\<close> wraps to \<open>-2147483616\<close>, and the block is not decoded: the two
  plans are not equivalent, and \<open>fill_hydro\<close> stops with an I/O fault.
\<close>

theorem fill_hydro_seek_plan_wraps:
  "jump_table wide_fields [''scalar_05''] = Inr [10, 0] \<and>
   rec_at (records wide_file) (10 * (8 * 26843545 + 8)) = Some wide_record \<and>
   skip_len 10 26843545 = - 2147483616 \<and>
   decode_block [10, 0] 1 2 0 26843545 wide_start = Inl IOFault \<and>
   (\<exists>t. naive_decode_block wide_fields [''scalar_05''] 2 0 26843545 wide_start = Inr t \<and>
        reads t = [2147483680, 4509715728]) \<and>
   \<not> same_decode (decode_block [10, 0] 1 2 0 26843545 wide_start)
       (naive_decode_block wide_fields [''scalar_05''] 2 0 26843545 wide_start) \<and>
   fill_hydro wide_file [[0]] [[26843545]] [0] 1 wide_fields [''scalar_05''] = Inl IOFault"
  by (intro conjI wide_jumps wide_on_disk skip_len_wide wide_decode wide_naive
      wide_plans_differ wide_fill)

subsection \<open>\<open>fill_hydro\<close>: what a call hands over\<close>




















end
